theory Spec2Isabelle
  imports Main "HOL-Library.AList"
begin

section \<open>Strings as the server uses them\<close>

text \<open>
  The diagnostics server (\<^verbatim>\<open>src/diagnostics/server.mjs\<close>) works on JavaScript strings.
  They are modelled as \<^typ>\<open>string\<close>: a list of characters with codes 0 to 255, the character
  with code \<open>n\<close> standing for the UTF-16 code unit \<open>n\<close> (ISO 8859-1 text). An absent or
  \<^verbatim>\<open>undefined\<close> field that the code reads through \<^verbatim>\<open>x || ""\<close> is the empty string.

  \<^verbatim>\<open>String.prototype.trim\<close> removes white space and line terminators from both ends; the
  code units below 256 among them are U+0009 to U+000D, U+0020 and U+00A0 (the others,
  U+1680, U+2000 to U+200A, U+2028, U+2029, U+202F, U+205F, U+3000 and U+FEFF, are not
  characters of the model).
  \<^verbatim>\<open>String.prototype.toLowerCase\<close> maps \<^verbatim>\<open>A-Z\<close> to \<^verbatim>\<open>a-z\<close> and the letters U+00C0 to
  U+00DE other than the multiplication sign U+00D7 to the letter 32 code units above, and
  leaves every other code unit below 256 as it is.
\<close>

definition isSpace :: "char \<Rightarrow> bool" where
  "isSpace c =
     (c \<in> set [CHR 0x09, CHR 0x0A, CHR 0x0B, CHR 0x0C, CHR 0x0D, CHR 0x20, CHR 0xA0])"

definition trim :: "string \<Rightarrow> string" where
  "trim s = rev (dropWhile isSpace (rev (dropWhile isSpace s)))"

definition lowerChar :: "char \<Rightarrow> char" where
  "lowerChar c =
     (case map_of
        (zip (''ABCDEFGHIJKLMNOPQRSTUVWXYZ'' @
              [CHR 0xC0, CHR 0xC1, CHR 0xC2, CHR 0xC3, CHR 0xC4, CHR 0xC5, CHR 0xC6, CHR 0xC7,
               CHR 0xC8, CHR 0xC9, CHR 0xCA, CHR 0xCB, CHR 0xCC, CHR 0xCD, CHR 0xCE, CHR 0xCF,
               CHR 0xD0, CHR 0xD1, CHR 0xD2, CHR 0xD3, CHR 0xD4, CHR 0xD5, CHR 0xD6, CHR 0xD8,
               CHR 0xD9, CHR 0xDA, CHR 0xDB, CHR 0xDC, CHR 0xDD, CHR 0xDE])
             (''abcdefghijklmnopqrstuvwxyz'' @
              [CHR 0xE0, CHR 0xE1, CHR 0xE2, CHR 0xE3, CHR 0xE4, CHR 0xE5, CHR 0xE6, CHR 0xE7,
               CHR 0xE8, CHR 0xE9, CHR 0xEA, CHR 0xEB, CHR 0xEC, CHR 0xED, CHR 0xEE, CHR 0xEF,
               CHR 0xF0, CHR 0xF1, CHR 0xF2, CHR 0xF3, CHR 0xF4, CHR 0xF5, CHR 0xF6, CHR 0xF8,
               CHR 0xF9, CHR 0xFA, CHR 0xFB, CHR 0xFC, CHR 0xFD, CHR 0xFE])) c of
        Some l \<Rightarrow> l
      | None \<Rightarrow> c)"

definition toLowerCase :: "string \<Rightarrow> string" where
  "toLowerCase s = map lowerChar s"

fun startsWith :: "string \<Rightarrow> string \<Rightarrow> bool" where
  "startsWith s [] = True"
| "startsWith [] (k # ks) = False"
| "startsWith (c # cs) (k # ks) = (c = k \<and> startsWith cs ks)"

fun includesStr :: "string \<Rightarrow> string \<Rightarrow> bool" where
  "includesStr [] k = (k = [])"
| "includesStr (c # cs) k = (startsWith (c # cs) k \<or> includesStr cs k)"

definition digitChar :: "nat \<Rightarrow> char" where
  "digitChar d = ''0123456789'' ! d"

fun showNat :: "nat \<Rightarrow> string" where
  "showNat n = (if n < 10 then [digitChar n] else showNat (n div 10) @ [digitChar (n mod 10)])"

declare showNat.simps [simp del]

definition showInt :: "int \<Rightarrow> string" where
  "showInt i = (if i < 0 then CHR ''-'' # showNat (nat (- i)) else showNat (nat i))"

section \<open>Configuration\<close>

text \<open>
  The module-level constants read from the environment at start-up
  (\<^verbatim>\<open>DIAG_COMPOSE_FILE\<close>, \<^verbatim>\<open>DIAG_SERVICE\<close>, \<^verbatim>\<open>DIAG_CONTAINER\<close>, \<^verbatim>\<open>DIAG_DOCKER_MODE\<close>).
\<close>

record config =
  COMPOSE_FILE :: string
  DEFAULT_SERVICE :: string
  TARGET_CONTAINER :: string
  DOCKER_MODE :: string

definition PROVIDER_ORDER :: "string list" where
  "PROVIDER_ORDER =
     [''proxy-access'', ''claude'', ''codex'', ''gemini'', ''qwen'', ''iflow'',
      ''openai-compat'', ''unknown'']"

section \<open>Provider normalization\<close>

definition normalizeProviderName :: "string \<Rightarrow> string" where
  "normalizeProviderName raw =
     (let v = toLowerCase (trim raw) in
      if v = [] then ''unknown''
      else if includesStr v ''proxy'' \<or> v = ''api-keys'' \<or> v = ''api_keys'' then ''proxy-access''
      else if includesStr v ''claude'' \<or> includesStr v ''anthropic'' then ''claude''
      else if includesStr v ''codex'' \<or> includesStr v ''openai'' \<or> v = ''gpt'' then ''codex''
      else if includesStr v ''gemini'' then ''gemini''
      else if includesStr v ''qwen'' then ''qwen''
      else if includesStr v ''iflow'' then ''iflow''
      else if includesStr v ''compat'' \<or> includesStr v ''openrouter'' then ''openai-compat''
      else v)"

definition inferProviderFromFileName :: "string \<Rightarrow> string" where
  "inferProviderFromFileName fileName = normalizeProviderName fileName"

section \<open>Credential freshness\<close>

text \<open>
  The library functions the evaluator calls are parameters of the model:
  \<^verbatim>\<open>Date.parse\<close> (\<^const>\<open>None\<close> is \<^verbatim>\<open>NaN\<close>; every other result is an integer number of
  milliseconds), \<^verbatim>\<open>new Date(ms).toISOString()\<close> and \<^verbatim>\<open>String.prototype.localeCompare\<close>.
  \<^verbatim>\<open>Date.now()\<close> is the argument \<open>nowMs\<close>.
\<close>

record runtime =
  dateParse :: "string \<Rightarrow> int option"
  toISOString :: "int \<Rightarrow> string"
  localeCompare :: "string \<Rightarrow> string \<Rightarrow> int"

datatype freshness = Missing | Configured | Fresh | Unknown | Warning | Stale | Expired | Error

fun FRESHNESS_SEVERITY :: "freshness \<Rightarrow> nat" where
  "FRESHNESS_SEVERITY Missing = 0"
| "FRESHNESS_SEVERITY Configured = 1"
| "FRESHNESS_SEVERITY Fresh = 2"
| "FRESHNESS_SEVERITY Unknown = 3"
| "FRESHNESS_SEVERITY Warning = 4"
| "FRESHNESS_SEVERITY Stale = 5"
| "FRESHNESS_SEVERITY Expired = 6"
| "FRESHNESS_SEVERITY Error = 7"

text \<open>One element of the list \<^verbatim>\<open>readAuthFiles\<close> returns.\<close>

record oauth_file =
  fileName :: string
  provider :: string
  email :: string
  expiresAt :: string
  lastRefresh :: string
  modifiedAt :: string
  fileSize :: nat
  parseError :: string

record evaluation =
  level :: freshness
  message :: string
  expiresInMs :: "int option"

text \<open>
  \<^verbatim>\<open>Math.round(abs / 60000)\<close> and \<^verbatim>\<open>Math.round(abs / 1000)\<close> on a non-negative integer
  number of milliseconds round half up.
\<close>

definition humanizeDurationMs :: "int \<Rightarrow> string" where
  "humanizeDurationMs ms =
     (let a = nat \<bar>ms\<bar>;
          totalMinutes = (a + 30000) div 60000;
          days = totalMinutes div 1440;
          hours = (totalMinutes mod 1440) div 60;
          minutes = totalMinutes mod 60
      in if days > 0 then showNat days @ ''d '' @ showNat hours @ ''h''
         else if hours > 0 then showNat hours @ ''h '' @ showNat minutes @ ''m''
         else if minutes > 0 then showNat minutes @ ''m''
         else showNat (max 1 ((a + 500) div 1000)) @ ''s'')"

text \<open>\<^verbatim>\<open>s ? Date.parse(s) : Number.NaN\<close>\<close>

definition parseIfPresent :: "runtime \<Rightarrow> string \<Rightarrow> int option" where
  "parseIfPresent rt s = (if s = [] then None else dateParse rt s)"

definition evaluateOAuthFileFreshness :: "runtime \<Rightarrow> oauth_file \<Rightarrow> int \<Rightarrow> evaluation" where
  "evaluateOAuthFileFreshness rt f nowMs =
     (if parseError f \<noteq> [] then
        \<lparr>level = Error, message = ''Token file cannot be parsed'', expiresInMs = None\<rparr>
      else case parseIfPresent rt (expiresAt f) of
        Some expiryMs \<Rightarrow>
          (let delta = expiryMs - nowMs in
           if delta \<le> 0 then
             \<lparr>level = Expired, message = ''Expired '' @ humanizeDurationMs delta @ '' ago'',
              expiresInMs = Some delta\<rparr>
           else if delta \<le> 24 * 60 * 60 * 1000 then
             \<lparr>level = Warning, message = ''Expires in '' @ humanizeDurationMs delta,
              expiresInMs = Some delta\<rparr>
           else
             \<lparr>level = Fresh, message = ''Valid for '' @ humanizeDurationMs delta,
              expiresInMs = Some delta\<rparr>)
      | None \<Rightarrow>
          (case parseIfPresent rt (lastRefresh f) of
             Some refreshMs \<Rightarrow>
               (let age = nowMs - refreshMs in
                if age \<le> 7 * 24 * 60 * 60 * 1000 then
                  \<lparr>level = Fresh, message = ''Refreshed '' @ humanizeDurationMs age @ '' ago'',
                   expiresInMs = None\<rparr>
                else if age \<le> 30 * 24 * 60 * 60 * 1000 then
                  \<lparr>level = Warning, message = ''Refresh is '' @ humanizeDurationMs age @ '' old'',
                   expiresInMs = None\<rparr>
                else
                  \<lparr>level = Stale,
                   message = ''Refresh is stale ('' @ humanizeDurationMs age @ '' old)'',
                   expiresInMs = None\<rparr>)
           | None \<Rightarrow>
               (case parseIfPresent rt (modifiedAt f) of
                  Some modifiedMs \<Rightarrow>
                    (let age = nowMs - modifiedMs in
                     if age \<le> 30 * 24 * 60 * 60 * 1000 then
                       \<lparr>level = Unknown,
                        message = ''No expiry metadata, file updated '' @ humanizeDurationMs age @ '' ago'',
                        expiresInMs = None\<rparr>
                     else
                       \<lparr>level = Stale,
                        message = ''No expiry metadata and file is old ('' @ humanizeDurationMs age @ '')'',
                        expiresInMs = None\<rparr>)
                | None \<Rightarrow>
                    \<lparr>level = Unknown, message = ''No expiry metadata'', expiresInMs = None\<rparr>)))"

section \<open>Provider health\<close>

text \<open>
  A plain JavaScript object read with \<^verbatim>\<open>obj[key]\<close> answers with its own property or,
  failing that, with the property \<^verbatim>\<open>Object.prototype\<close> has under that name. The inherited
  ones are all functions, except \<^verbatim>\<open>__proto__\<close>, whose getter returns
  \<^verbatim>\<open>Object.prototype\<close> itself.
\<close>

datatype 'a js_lookup = Own 'a | InheritedFunction | InheritedObject | Undefined

definition objectPrototypeFunctions :: "string list" where
  "objectPrototypeFunctions =
     [''constructor'', ''hasOwnProperty'', ''isPrototypeOf'', ''propertyIsEnumerable'',
      ''toLocaleString'', ''toString'', ''valueOf'', ''__defineGetter__'', ''__defineSetter__'',
      ''__lookupGetter__'', ''__lookupSetter__'']"

definition getProperty :: "(string \<times> 'a) list \<Rightarrow> string \<Rightarrow> 'a js_lookup" where
  "getProperty obj key =
     (case map_of obj key of
        Some v \<Rightarrow> Own v
      | None \<Rightarrow>
          if key = ''__proto__'' then InheritedObject
          else if key \<in> set objectPrototypeFunctions then InheritedFunction
          else Undefined)"

text \<open>A JavaScript number that is an integer or \<^verbatim>\<open>NaN\<close>.\<close>

datatype js_number = Num int | NaN

text \<open>\<^verbatim>\<open>Number(staticCounts[provider] || 0)\<close>\<close>

definition staticKeyCountOf :: "(string \<times> int) list \<Rightarrow> string \<Rightarrow> js_number" where
  "staticKeyCountOf staticCounts p =
     (case getProperty staticCounts p of
        Own n \<Rightarrow> Num n
      | Undefined \<Rightarrow> Num 0
      | _ \<Rightarrow> NaN)"

text \<open>\<^verbatim>\<open>staticKeyCount > 0\<close>\<close>

fun positive :: "js_number \<Rightarrow> bool" where
  "positive (Num n) = (n > 0)"
| "positive NaN = False"

fun indexOf :: "string list \<Rightarrow> string \<Rightarrow> int" where
  "indexOf [] a = - 1"
| "indexOf (x # xs) a = (if x = a then 0 else let i = indexOf xs a in if i < 0 then - 1 else i + 1)"

definition sortProviders :: "runtime \<Rightarrow> string \<Rightarrow> string \<Rightarrow> int" where
  "sortProviders rt a b =
     (let idxA = indexOf PROVIDER_ORDER a; idxB = indexOf PROVIDER_ORDER b in
      if idxA \<ge> 0 \<and> idxB \<ge> 0 then idxA - idxB
      else if idxA \<ge> 0 then - 1
      else if idxB \<ge> 0 then 1
      else localeCompare rt a b)"

text \<open>
  \<^verbatim>\<open>Array.prototype.sort\<close> with a comparison function is a stable sort; for a comparison
  function that is a consistent ordering its result is the one of this insertion sort.
\<close>

fun insertBy :: "('a \<Rightarrow> 'a \<Rightarrow> int) \<Rightarrow> 'a \<Rightarrow> 'a list \<Rightarrow> 'a list" where
  "insertBy cmp x [] = [x]"
| "insertBy cmp x (y # ys) = (if cmp x y \<le> 0 then x # y # ys else y # insertBy cmp x ys)"

fun sortBy :: "('a \<Rightarrow> 'a \<Rightarrow> int) \<Rightarrow> 'a list \<Rightarrow> 'a list" where
  "sortBy cmp [] = []"
| "sortBy cmp (x # xs) = insertBy cmp x (sortBy cmp xs)"

text \<open>\<^verbatim>\<open>[...new Set(xs)]\<close>: the elements of \<open>xs\<close> in order of first occurrence.\<close>

definition uniqueInOrder :: "'a list \<Rightarrow> 'a list" where
  "uniqueInOrder xs = rev (remdups (rev xs))"

text \<open>
  A \<^verbatim>\<open>Map\<close> is an association list in insertion order; \<^verbatim>\<open>Map.prototype.set\<close> is
  \<^const>\<open>AList.update\<close>, which replaces the value of a key in place and appends a new key.
\<close>

definition providerOfFile :: "oauth_file \<Rightarrow> string" where
  "providerOfFile f = normalizeProviderName (if provider f = [] then ''unknown'' else provider f)"

definition groupStep :: "(string \<times> oauth_file list) list \<Rightarrow> oauth_file \<Rightarrow> (string \<times> oauth_file list) list" where
  "groupStep grouped f =
     (let p = providerOfFile f;
          items = (case map_of grouped p of None \<Rightarrow> [] | Some xs \<Rightarrow> xs)
      in AList.update p (items @ [f]) grouped)"

definition groupFiles :: "oauth_file list \<Rightarrow> (string \<times> oauth_file list) list" where
  "groupFiles oauthFiles = foldl groupStep [] oauthFiles"

text \<open>The loop that keeps the first evaluation of the highest severity.\<close>

fun worstOf :: "evaluation \<Rightarrow> evaluation list \<Rightarrow> evaluation" where
  "worstOf worst [] = worst"
| "worstOf worst (candidate # rest) =
     worstOf (if FRESHNESS_SEVERITY (level candidate) > FRESHNESS_SEVERITY (level worst)
              then candidate else worst) rest"

text \<open>
  One element of the result of \<^verbatim>\<open>buildProviderHealth\<close>. The display field \<^verbatim>\<open>label\<close>
  is left out.
\<close>

record provider_health =
  h_provider :: string
  status :: freshness
  statusMessage :: string
  authMode :: string
  oauthCount :: nat
  staticKeyCount :: js_number
  expiredCount :: nat
  expiringSoonCount :: nat
  parseErrors :: nat
  soonestExpiry :: string
  latestRefresh :: string

definition showNumber :: "js_number \<Rightarrow> string" where
  "showNumber n = (case n of Num i \<Rightarrow> showInt i | NaN \<Rightarrow> ''NaN'')"

definition providerEntry ::
  "runtime \<Rightarrow> int \<Rightarrow> (string \<times> oauth_file list) list \<Rightarrow> (string \<times> int) list \<Rightarrow> string
     \<Rightarrow> provider_health" where
  "providerEntry rt nowMs grouped staticCounts p =
     (let oauthEntries = (case map_of grouped p of None \<Rightarrow> [] | Some xs \<Rightarrow> xs);
          staticKeys = staticKeyCountOf staticCounts p;
          evaluations = map (\<lambda>entry. evaluateOAuthFileFreshness rt entry nowMs) oauthEntries;
          worst = (if length oauthEntries > 0 then
                     Some (worstOf (case evaluations of
                                      [] \<Rightarrow> \<lparr>level = Unknown, message = ''No health data'',
                                              expiresInMs = None\<rparr>
                                    | e # _ \<Rightarrow> e) evaluations)
                   else None);
          expiryValues = List.map_filter (\<lambda>entry. dateParse rt (expiresAt entry)) oauthEntries;
          refreshValues =
            List.map_filter
              (\<lambda>entry. dateParse rt (if lastRefresh entry \<noteq> [] then lastRefresh entry
                                      else modifiedAt entry)) oauthEntries
      in \<lparr>h_provider = p,
          status = (case worst of Some w \<Rightarrow> level w
                    | None \<Rightarrow> if positive staticKeys then Configured else Missing),
          statusMessage =
            (case worst of Some w \<Rightarrow> message w
             | None \<Rightarrow> if positive staticKeys
                        then showNumber staticKeys @ '' static API key(s) configured''
                        else ''No credentials configured''),
          authMode =
            (if length oauthEntries > 0 \<and> positive staticKeys then ''mixed''
             else if length oauthEntries > 0 then ''oauth''
             else if positive staticKeys then ''api-keys''
             else ''none''),
          oauthCount = length oauthEntries,
          staticKeyCount = staticKeys,
          expiredCount = length (filter (\<lambda>ts. ts \<le> nowMs) expiryValues),
          expiringSoonCount =
            length (filter (\<lambda>ts. ts > nowMs \<and> ts \<le> nowMs + 24 * 60 * 60 * 1000) expiryValues),
          parseErrors = length (filter (\<lambda>entry. parseError entry \<noteq> []) oauthEntries),
          soonestExpiry = (if expiryValues = [] then [] else toISOString rt (Min (set expiryValues))),
          latestRefresh = (if refreshValues = [] then [] else toISOString rt (Max (set refreshValues)))\<rparr>)"

definition orderedProviders ::
  "runtime \<Rightarrow> (string \<times> oauth_file list) list \<Rightarrow> (string \<times> int) list \<Rightarrow> string list" where
  "orderedProviders rt grouped staticCounts =
     sortBy (sortProviders rt) (uniqueInOrder (PROVIDER_ORDER @ map fst staticCounts @ map fst grouped))"

definition buildProviderHealth ::
  "runtime \<Rightarrow> int \<Rightarrow> oauth_file list \<Rightarrow> (string \<times> int) list \<Rightarrow> provider_health list" where
  "buildProviderHealth rt nowMs oauthFiles staticCounts =
     (let grouped = groupFiles oauthFiles in
      map (providerEntry rt nowMs grouped staticCounts) (orderedProviders rt grouped staticCounts))"

section \<open>Subprocesses\<close>

text \<open>
  \<^verbatim>\<open>runCommand(cmd, args, timeoutMs)\<close> never throws for an argument array: it resolves to a
  record of the child's exit code and output. What the child answers is a parameter of the
  model (\<open>run\<close>); every spawn is appended to a trace, so that a theorem can say which
  subprocesses a function started. The parsers of the child's JSON output
  (\<^verbatim>\<open>splitJSONLines\<close>, \<^verbatim>\<open>JSON.parse\<close>) and \<^verbatim>\<open>parseTimestamp\<close>, which goes through
  \<^verbatim>\<open>Date\<close>, are parameters too; \<open>clock\<close> is \<^verbatim>\<open>new Date().toISOString()\<close>.
\<close>

record cmd_result =
  code :: int
  signal :: "string option"
  timedOut :: bool
  stdout :: string
  stderr :: string

text \<open>One row of \<^verbatim>\<open>docker compose ps\<close> or \<^verbatim>\<open>docker ps\<close>; a field that is absent is empty.\<close>

record docker_row =
  Service :: string
  Name :: string
  Names :: string
  State :: string
  Status :: string
  Image :: string
  CreatedAt :: string
  RunningFor :: string
  ExitCode :: "int option"
  ID :: string

text \<open>The object \<^verbatim>\<open>docker inspect --format "{{json .State}}"\<close> prints, as parsed.\<close>

record inspect_payload =
  p_Status :: string
  p_Running :: bool
  p_ExitCode :: "int option"
  p_StartedAt :: string
  p_FinishedAt :: string

record docker_env =
  run :: "string \<Rightarrow> string list \<Rightarrow> cmd_result"
  splitJSONLines :: "string \<Rightarrow> docker_row list"
  parseInspect :: "string \<Rightarrow> inspect_payload option"
  parseTimestamp :: "string \<Rightarrow> string"
  clock :: string

type_synonym trace = "(string \<times> string list) list"

definition runCommand :: "docker_env \<Rightarrow> string \<Rightarrow> string list \<Rightarrow> trace \<Rightarrow> cmd_result \<times> trace" where
  "runCommand env cmd args tr = (run env cmd args, tr @ [(cmd, args)])"

text \<open>\<^verbatim>\<open>a || b\<close> on strings.\<close>

definition orElse :: "string \<Rightarrow> string \<Rightarrow> string" where
  "orElse a b = (if a \<noteq> [] then a else b)"

section \<open>Service state\<close>

definition deriveStateFromStatus :: "string \<Rightarrow> string" where
  "deriveStateFromStatus statusRaw =
     (let st = toLowerCase (trim statusRaw) in
      if st = [] then ''unknown''
      else if startsWith st ''up'' \<or> startsWith st ''running'' then ''running''
      else if startsWith st ''exited'' \<or> includesStr st ''dead'' then ''exited''
      else if includesStr st ''restart'' then ''restarting''
      else if includesStr st ''created'' then ''created''
      else ''unknown'')"

text \<open>One element of \<^verbatim>\<open>services\<close> in a summary.\<close>

record service_state =
  s_service :: string
  s_container :: string
  s_state :: string
  s_status :: string
  s_image :: string
  s_createdAt :: string
  s_runningFor :: string
  s_exitCode :: "int option"
  s_id :: string
  s_running :: bool
  s_exited :: bool

definition normalizeComposeServiceState :: "config \<Rightarrow> docker_row \<Rightarrow> service_state" where
  "normalizeComposeServiceState cfg service =
     (let status = Status service;
          inferred = deriveStateFromStatus status;
          composeState = toLowerCase (State service);
          state = orElse composeState inferred;
          running = (state = ''running'');
          exited = (state = ''exited'')
      in \<lparr>s_service = orElse (Service service) (orElse (Name service) (DEFAULT_SERVICE cfg)),
          s_container = orElse (Name service) (orElse (Names service) (TARGET_CONTAINER cfg)),
          s_state = orElse state ''unknown'',
          s_status = status,
          s_image = Image service,
          s_createdAt = CreatedAt service,
          s_runningFor = RunningFor service,
          s_exitCode = ExitCode service,
          s_id = ID service,
          s_running = running,
          s_exited = exited\<rparr>)"

record inspect_state =
  i_status :: string
  i_running :: bool
  i_exitCode :: "int option"
  i_startedAt :: string
  i_finishedAt :: string

definition inspectContainerState ::
  "docker_env \<Rightarrow> string \<Rightarrow> trace \<Rightarrow> inspect_state option \<times> trace" where
  "inspectContainerState env containerName tr =
     (let safeName = trim containerName in
      if safeName = [] then (None, tr)
      else
        let (result, tr') =
              runCommand env ''docker'' [''inspect'', safeName, ''--format'', ''{{json .State}}''] tr
        in if code result \<noteq> 0 then (None, tr')
           else let payload = trim (stdout result) in
             if payload = [] then (None, tr')
             else case parseInspect env payload of
                    None \<Rightarrow> (None, tr')
                  | Some parsed \<Rightarrow>
                      (Some \<lparr>i_status = toLowerCase (p_Status parsed),
                             i_running = p_Running parsed,
                             i_exitCode = p_ExitCode parsed,
                             i_startedAt = parseTimestamp env (p_StartedAt parsed),
                             i_finishedAt = parseTimestamp env (p_FinishedAt parsed)\<rparr>, tr'))"

definition normalizeContainerState ::
  "config \<Rightarrow> docker_row \<Rightarrow> inspect_state option \<Rightarrow> service_state" where
  "normalizeContainerState cfg row inspectState =
     (let status = Status row;
          inferred = deriveStateFromStatus status;
          inspectStatus = (case inspectState of None \<Rightarrow> [] | Some i \<Rightarrow> i_status i);
          state = orElse inspectStatus inferred;
          running = (case inspectState of Some i \<Rightarrow> i_running i | None \<Rightarrow> state = ''running'');
          exited = (state = ''exited'')
      in \<lparr>s_service = DEFAULT_SERVICE cfg,
          s_container = orElse (Names row) (TARGET_CONTAINER cfg),
          s_state = orElse state ''unknown'',
          s_status = status,
          s_image = Image row,
          s_createdAt = CreatedAt row,
          s_runningFor = RunningFor row,
          s_exitCode = (case inspectState of Some i \<Rightarrow> i_exitCode i | None \<Rightarrow> None),
          s_id = ID row,
          s_running = running,
          s_exited = exited\<rparr>)"

text \<open>The placeholder both backends report when the container does not exist yet.\<close>

definition notCreated :: "config \<Rightarrow> service_state" where
  "notCreated cfg =
     \<lparr>s_service = DEFAULT_SERVICE cfg, s_container = TARGET_CONTAINER cfg,
      s_state = ''not-created'', s_status = ''Container not created yet'', s_image = [],
      s_createdAt = [], s_runningFor = [], s_exitCode = None, s_id = [],
      s_running = False, s_exited = False\<rparr>"

record summary =
  generatedAt :: string
  backend :: string
  dockerMode :: string
  dockerAvailable :: bool
  composeFile :: string
  defaultService :: string
  defaultContainer :: string
  overallState :: string
  services :: "service_state list"
  commandError :: string

definition getComposeServiceSummary :: "config \<Rightarrow> docker_env \<Rightarrow> trace \<Rightarrow> summary \<times> trace" where
  "getComposeServiceSummary cfg env tr =
     (let (composeResult, tr') =
            runCommand env ''docker''
              [''compose'', ''-f'', COMPOSE_FILE cfg, ''ps'', ''--all'', ''--format'', ''json''] tr;
          dockerOk = (code composeResult = 0);
          parsed = (if dockerOk
                    then map (normalizeComposeServiceState cfg) (splitJSONLines env (stdout composeResult))
                    else []);
          svcs = (if length parsed = 0 \<and> dockerOk then parsed @ [notCreated cfg] else parsed);
          primary = (case find (\<lambda>svc. s_service svc = DEFAULT_SERVICE cfg) svcs of
                       Some p \<Rightarrow> Some p
                     | None \<Rightarrow> (case svcs of [] \<Rightarrow> None | s # _ \<Rightarrow> Some s));
          overall = (case primary of
                       None \<Rightarrow> ''unknown''
                     | Some p \<Rightarrow> if s_running p then ''running'' else s_state p)
      in (\<lparr>generatedAt = clock env,
           backend = ''compose'',
           dockerMode = DOCKER_MODE cfg,
           dockerAvailable = dockerOk,
           composeFile = COMPOSE_FILE cfg,
           defaultService = DEFAULT_SERVICE cfg,
           defaultContainer = TARGET_CONTAINER cfg,
           overallState = overall,
           services = svcs,
           commandError =
             (if dockerOk then []
              else trim (orElse (stderr composeResult)
                          (orElse (stdout composeResult) ''docker compose command failed'')))\<rparr>,
          tr'))"

definition getContainerServiceSummary :: "config \<Rightarrow> docker_env \<Rightarrow> trace \<Rightarrow> summary \<times> trace" where
  "getContainerServiceSummary cfg env tr =
     (let (result, tr') =
            runCommand env ''docker''
              [''ps'', ''-a'', ''--filter'', ''name=^/'' @ TARGET_CONTAINER cfg @ ''$'',
               ''--format'', ''{{json .}}''] tr;
          dockerOk = (code result = 0)
      in if \<not> dockerOk then
           (\<lparr>generatedAt = clock env, backend = ''container'', dockerMode = DOCKER_MODE cfg,
             dockerAvailable = False, composeFile = COMPOSE_FILE cfg,
             defaultService = DEFAULT_SERVICE cfg, defaultContainer = TARGET_CONTAINER cfg,
             overallState = ''unknown'', services = [],
             commandError =
               trim (orElse (stderr result) (orElse (stdout result) ''docker ps command failed''))\<rparr>,
            tr')
         else case splitJSONLines env (stdout result) of
           [] \<Rightarrow>
             (\<lparr>generatedAt = clock env, backend = ''container'', dockerMode = DOCKER_MODE cfg,
               dockerAvailable = True, composeFile = COMPOSE_FILE cfg,
               defaultService = DEFAULT_SERVICE cfg, defaultContainer = TARGET_CONTAINER cfg,
               overallState = ''not-created'', services = [notCreated cfg], commandError = []\<rparr>,
              tr')
         | row # _ \<Rightarrow>
             (let (inspect, tr'') =
                    inspectContainerState env (orElse (Names row) (TARGET_CONTAINER cfg)) tr';
                  primary = normalizeContainerState cfg row inspect
              in (\<lparr>generatedAt = clock env, backend = ''container'', dockerMode = DOCKER_MODE cfg,
                   dockerAvailable = True, composeFile = COMPOSE_FILE cfg,
                   defaultService = DEFAULT_SERVICE cfg, defaultContainer = TARGET_CONTAINER cfg,
                   overallState = (if s_running primary then ''running'' else s_state primary),
                   services = [primary], commandError = []\<rparr>,
                  tr'')))"

definition getServiceSummary :: "config \<Rightarrow> docker_env \<Rightarrow> trace \<Rightarrow> summary \<times> trace" where
  "getServiceSummary cfg env tr =
     (if DOCKER_MODE cfg = ''compose'' then getComposeServiceSummary cfg env tr
      else if DOCKER_MODE cfg = ''container'' then getContainerServiceSummary cfg env tr
      else
        let (compose, tr1) = getComposeServiceSummary cfg env tr in
        if dockerAvailable compose then (compose, tr1)
        else
          let (container, tr2) = getContainerServiceSummary cfg env tr1 in
          if dockerAvailable container then
            (if commandError container = [] \<and> commandError compose \<noteq> []
             then container\<lparr>commandError := commandError compose\<rparr>
             else container, tr2)
          else (compose, tr2))"

section \<open>Start, stop, restart\<close>

text \<open>
  The action tables are object literals read with \<^verbatim>\<open>actions[action]\<close>, so the lookup goes
  through \<^const>\<open>getProperty\<close>. \<^verbatim>\<open>child_process.spawn(cmd, args, options)\<close> takes an array as
  the argument vector and \<^verbatim>\<open>undefined\<close> as the empty one; a value that is an object but not
  an array is taken as the options, the argument vector being empty; for any other value it
  throws \<^verbatim>\<open>ERR_INVALID_ARG_TYPE\<close>, which rejects the promise of \<^verbatim>\<open>runCommand\<close>.
\<close>

datatype js_error = ERR_INVALID_ARG_TYPE

definition runCommandValue ::
  "docker_env \<Rightarrow> string \<Rightarrow> string list js_lookup \<Rightarrow> trace \<Rightarrow> (js_error + cmd_result) \<times> trace" where
  "runCommandValue env cmd v tr =
     (case v of
        Own args \<Rightarrow> (let (r, tr') = runCommand env cmd args tr in (Inr r, tr'))
      | Undefined \<Rightarrow> (let (r, tr') = runCommand env cmd [] tr in (Inr r, tr'))
      | InheritedObject \<Rightarrow> (let (r, tr') = runCommand env cmd [] tr in (Inr r, tr'))
      | InheritedFunction \<Rightarrow> (Inl ERR_INVALID_ARG_TYPE, tr))"

record action_result =
  ok :: bool
  a_error :: "string option"
  a_backend :: string
  a_code :: "int option"
  a_stdout :: "string option"
  a_stderr :: "string option"
  fallbackFrom :: "string option"
  fallbackTried :: "string option"
  fallbackError :: "string option"

definition unsupportedAction :: "string \<Rightarrow> action_result" where
  "unsupportedAction b =
     \<lparr>ok = False, a_error = Some ''unsupported action'', a_backend = b, a_code = None,
      a_stdout = None, a_stderr = None, fallbackFrom = None, fallbackTried = None,
      fallbackError = None\<rparr>"

definition actionResult :: "string \<Rightarrow> cmd_result \<Rightarrow> action_result" where
  "actionResult b result =
     \<lparr>ok = (code result = 0), a_error = None, a_backend = b, a_code = Some (code result),
      a_stdout = Some (trim (stdout result)), a_stderr = Some (trim (stderr result)),
      fallbackFrom = None, fallbackTried = None, fallbackError = None\<rparr>"

definition composeActions :: "config \<Rightarrow> (string \<times> string list) list" where
  "composeActions cfg =
     [(''start'', [''compose'', ''-f'', COMPOSE_FILE cfg, ''up'', ''-d'', DEFAULT_SERVICE cfg]),
      (''stop'', [''compose'', ''-f'', COMPOSE_FILE cfg, ''stop'', DEFAULT_SERVICE cfg]),
      (''restart'', [''compose'', ''-f'', COMPOSE_FILE cfg, ''restart'', DEFAULT_SERVICE cfg])]"

definition directActions :: "config \<Rightarrow> (string \<times> string list) list" where
  "directActions cfg =
     [(''start'', [''start'', TARGET_CONTAINER cfg]),
      (''stop'', [''stop'', TARGET_CONTAINER cfg]),
      (''restart'', [''restart'', TARGET_CONTAINER cfg])]"

definition runActionWith ::
  "(string \<times> string list) list \<Rightarrow> string \<Rightarrow> docker_env \<Rightarrow> string \<Rightarrow> trace
     \<Rightarrow> (js_error + action_result) \<times> trace" where
  "runActionWith actions b env action tr =
     (let args = getProperty actions action in
      if args = Undefined then (Inr (unsupportedAction b), tr)
      else case runCommandValue env ''docker'' args tr of
             (Inl e, tr') \<Rightarrow> (Inl e, tr')
           | (Inr result, tr') \<Rightarrow> (Inr (actionResult b result), tr'))"

definition runComposeAction ::
  "config \<Rightarrow> docker_env \<Rightarrow> string \<Rightarrow> trace \<Rightarrow> (js_error + action_result) \<times> trace" where
  "runComposeAction cfg env action tr = runActionWith (composeActions cfg) ''compose'' env action tr"

definition runDirectContainerAction ::
  "config \<Rightarrow> docker_env \<Rightarrow> string \<Rightarrow> trace \<Rightarrow> (js_error + action_result) \<times> trace" where
  "runDirectContainerAction cfg env action tr =
     runActionWith (directActions cfg) ''container'' env action tr"

text \<open>\<^verbatim>\<open>r.stderr || r.stdout || fallback\<close> on a result whose output fields may be absent.\<close>

definition outputOr :: "action_result \<Rightarrow> string \<Rightarrow> string" where
  "outputOr r fallback =
     orElse (case a_stderr r of None \<Rightarrow> [] | Some s \<Rightarrow> s)
       (orElse (case a_stdout r of None \<Rightarrow> [] | Some s \<Rightarrow> s) fallback)"

definition runContainerAction ::
  "config \<Rightarrow> docker_env \<Rightarrow> string \<Rightarrow> trace \<Rightarrow> (js_error + action_result) \<times> trace" where
  "runContainerAction cfg env action tr =
     (if DOCKER_MODE cfg = ''compose'' then runComposeAction cfg env action tr
      else if DOCKER_MODE cfg = ''container'' then runDirectContainerAction cfg env action tr
      else case runComposeAction cfg env action tr of
             (Inl e, tr1) \<Rightarrow> (Inl e, tr1)
           | (Inr compose, tr1) \<Rightarrow>
               if ok compose then (Inr compose, tr1)
               else case runDirectContainerAction cfg env action tr1 of
                      (Inl e, tr2) \<Rightarrow> (Inl e, tr2)
                    | (Inr direct, tr2) \<Rightarrow>
                        if ok direct then
                          (Inr (direct\<lparr>fallbackFrom := Some ''compose'',
                                       fallbackError := Some (outputOr compose ''compose action failed'')\<rparr>),
                           tr2)
                        else
                          (Inr (compose\<lparr>fallbackTried := Some ''container'',
                                        fallbackError := Some (outputOr direct ''container action failed'')\<rparr>),
                           tr2))"

text \<open>
  The route \<^verbatim>\<open>POST /api/container/<action>\<close>: the rest of the path, trimmed and
  lower-cased, is the action.
\<close>

definition containerActionRoute ::
  "config \<Rightarrow> docker_env \<Rightarrow> string \<Rightarrow> trace \<Rightarrow> (js_error + action_result) \<times> trace" where
  "containerActionRoute cfg env rest tr = runContainerAction cfg env (toLowerCase (trim rest)) tr"

section \<open>Log stream: the container name handed to the subprocess\<close>

definition safeChar :: "char \<Rightarrow> bool" where
  "safeChar c =
     (c \<in> set (''abcdefghijklmnopqrstuvwxyz'' @ ''ABCDEFGHIJKLMNOPQRSTUVWXYZ'' @ ''0123456789'' @ ''_.-''))"

text \<open>\<^verbatim>\<open>(containerName || TARGET_CONTAINER).replace(/[^a-zA-Z0-9_.-]/g, "")\<close>\<close>

definition safeContainer :: "config \<Rightarrow> string \<Rightarrow> string" where
  "safeContainer cfg containerName =
     filter safeChar (if containerName = [] then TARGET_CONTAINER cfg else containerName)"

text \<open>The argument vector of the \<^verbatim>\<open>docker\<close> child that \<^verbatim>\<open>streamLogs\<close> spawns.\<close>

definition streamLogsArgs :: "config \<Rightarrow> string \<Rightarrow> string list" where
  "streamLogsArgs cfg containerName =
     [''logs'', ''--timestamps'', ''--tail'', ''200'', ''--follow'', safeContainer cfg containerName]"

text \<open>
  The route \<^verbatim>\<open>GET /api/logs/stream\<close>: the query parameter \<^verbatim>\<open>container\<close>
  (\<^const>\<open>None\<close> when the request does not carry it) or the configured container.
\<close>

definition logsStreamRoute :: "config \<Rightarrow> string option \<Rightarrow> string list" where
  "logsStreamRoute cfg param =
     (let container = (case param of
                         None \<Rightarrow> TARGET_CONTAINER cfg
                       | Some c \<Rightarrow> if c = [] then TARGET_CONTAINER cfg else c)
      in streamLogsArgs cfg container)"

section \<open>Comparison of strings by character code\<close>

text \<open>
  The order \<^verbatim>\<open>Array.prototype.sort\<close> uses on strings when it is given no comparison
  function; the worked examples use it as their collation too.
\<close>

fun codeUnitCompare :: "string \<Rightarrow> string \<Rightarrow> int" where
  "codeUnitCompare [] [] = 0"
| "codeUnitCompare [] (y # ys) = - 1"
| "codeUnitCompare (x # xs) [] = 1"
| "codeUnitCompare (x # xs) (y # ys) =
     (if (of_char x :: nat) < of_char y then - 1
      else if (of_char y :: nat) < of_char x then 1
      else codeUnitCompare xs ys)"

section \<open>Log stream: framing\<close>

text \<open>
  \<^verbatim>\<open>buffer.split(/\r?\n/)\<close>: the text between the line boundaries, a boundary being a line
  feed together with the carriage return before it, if there is one. The result is never
  empty; its last element is the text after the last boundary.
\<close>

definition LF :: char where
  "LF = CHR 0x0A"

definition CR :: char where
  "CR = CHR 0x0D"

definition consHead :: "char \<Rightarrow> string list \<Rightarrow> string list" where
  "consHead c parts = (case parts of [] \<Rightarrow> [[c]] | p # ps \<Rightarrow> (c # p) # ps)"

fun splitLines :: "string \<Rightarrow> string list" where
  "splitLines [] = [[]]"
| "splitLines [c] = (if c = LF then [[], []] else [[c]])"
| "splitLines (c # d # cs) =
     (if c = LF then [] # splitLines (d # cs)
      else if c = CR \<and> d = LF then [] # splitLines cs
      else consHead c (splitLines (d # cs)))"

datatype log_kind = KLog | KError | KStatus

text \<open>
  What \<^verbatim>\<open>res.write\<close> sends: a comment frame (\<^verbatim>\<open>: connected\<close>, \<^verbatim>\<open>: ping\<close>) or a data frame
  whose JSON payload carries the kind and the line. The payload's \<^verbatim>\<open>ts\<close>, a clock reading,
  is left out.
\<close>

datatype sse = Comment string | Data log_kind string

record stream =
  child :: "string list"
  buffer :: string
  sent :: "sse list"
  ended :: bool
  heartbeat :: bool
  killed :: bool

text \<open>Nothing reaches the response once \<^verbatim>\<open>res.end()\<close> has been called.\<close>

definition resWrite :: "stream \<Rightarrow> sse \<Rightarrow> stream" where
  "resWrite s frame = (if ended s then s else s\<lparr>sent := sent s @ [frame]\<rparr>)"

definition writeLine :: "stream \<Rightarrow> string \<Rightarrow> log_kind \<Rightarrow> stream" where
  "writeLine s line kind = resWrite s (Data kind line)"

text \<open>The state \<^verbatim>\<open>streamLogs\<close> leaves behind when it returns.\<close>

definition streamLogs :: "config \<Rightarrow> string \<Rightarrow> stream" where
  "streamLogs cfg containerName =
     \<lparr>child = streamLogsArgs cfg containerName, buffer = [], sent = [Comment ''connected''],
      ended = False, heartbeat = True, killed = False\<rparr>"

definition flushChunk :: "stream \<Rightarrow> string \<Rightarrow> log_kind \<Rightarrow> stream" where
  "flushChunk s chunk kind =
     (let parts = splitLines (buffer s @ chunk) in
      foldl (\<lambda>st line. if line = [] then st else writeLine st line kind)
        (s\<lparr>buffer := last parts\<rparr>) (butlast parts))"

definition onClose :: "stream \<Rightarrow> int option \<Rightarrow> stream" where
  "onClose s exitCode =
     (let s1 = (if trim (buffer s) \<noteq> []
                then (writeLine s (trim (buffer s)) KLog)\<lparr>buffer := []\<rparr>
                else s);
          s2 = writeLine s1
                 (''log stream ended (exit code ''
                    @ (case exitCode of Some c \<Rightarrow> showInt c | None \<Rightarrow> ''unknown'') @ '')'')
                 KStatus
      in s2\<lparr>ended := True\<rparr>)"

definition onError :: "stream \<Rightarrow> string \<Rightarrow> stream" where
  "onError s msg =
     (writeLine s (''failed to start docker logs stream: '' @ msg) KError)\<lparr>ended := True\<rparr>"

datatype stream_event =
  Stdout string | Stderr string | Closed "int option" | SpawnFailed string | Tick | ClientGone

fun streamStep :: "stream \<Rightarrow> stream_event \<Rightarrow> stream" where
  "streamStep s (Stdout chunk) = flushChunk s chunk KLog"
| "streamStep s (Stderr chunk) = flushChunk s chunk KError"
| "streamStep s (Closed exitCode) = onClose s exitCode"
| "streamStep s (SpawnFailed msg) = onError s msg"
| "streamStep s Tick = (if heartbeat s then resWrite s (Comment ''ping'') else s)"
| "streamStep s ClientGone = s\<lparr>heartbeat := False, killed := True\<rparr>"

text \<open>
  The two pipes of the child. A chunk is the string \<^verbatim>\<open>chunk.toString("utf8")\<close> gives; the
  handler of \<^verbatim>\<open>child.stdout\<close> passes the kind \<^verbatim>\<open>log\<close> and the handler of
  \<^verbatim>\<open>child.stderr\<close> the kind \<^verbatim>\<open>error\<close>.
\<close>

datatype pipe = OutPipe | ErrPipe

fun pipeKind :: "pipe \<Rightarrow> log_kind" where
  "pipeKind OutPipe = KLog"
| "pipeKind ErrPipe = KError"

fun chunkEvent :: "pipe \<times> string \<Rightarrow> stream_event" where
  "chunkEvent (OutPipe, chunk) = Stdout chunk"
| "chunkEvent (ErrPipe, chunk) = Stderr chunk"

definition feed :: "stream \<Rightarrow> (pipe \<times> string) list \<Rightarrow> stream" where
  "feed s chunks = foldl streamStep s (map chunkEvent chunks)"

section \<open>Model catalogue\<close>

definition normalizeModelID :: "string \<Rightarrow> string" where
  "normalizeModelID raw =
     (let trimmed = trim raw in
      if trimmed = [] then []
      else if startsWith trimmed ''models/'' then drop (length ''models/'') trimmed
      else trimmed)"

definition inferProviderFromModel :: "string \<Rightarrow> string \<Rightarrow> string" where
  "inferProviderFromModel modelID ownedBy =
     (let owner = normalizeProviderName ownedBy in
      if owner \<noteq> ''unknown'' \<and> owner \<noteq> ''proxy-access'' \<and> owner \<noteq> ''openai-compat'' then owner
      else
        let mid = toLowerCase (trim modelID) in
        if mid = [] then ''unknown''
        else if includesStr mid ''claude'' then ''claude''
        else if includesStr mid ''gemini'' then ''gemini''
        else if includesStr mid ''qwen'' then ''qwen''
        else if includesStr mid ''iflow'' then ''iflow''
        else if includesStr mid ''gpt'' \<or> includesStr mid ''o1'' \<or> includesStr mid ''o3''
                \<or> includesStr mid ''o4'' \<or> includesStr mid ''codex'' \<or> includesStr mid ''chatgpt''
          then ''codex''
        else if owner \<noteq> ''unknown'' then owner else ''unknown'')"

text \<open>
  A model record of either listing; a field that is absent is empty. A response of
  \<^verbatim>\<open>fetchProxyJSON\<close>: \<open>r_models\<close> is the array \<^verbatim>\<open>data.data\<close> (first endpoint) or
  \<^verbatim>\<open>data.models\<close> (second endpoint), \<^const>\<open>None\<close> when the payload has no such array.
\<close>

record raw_model =
  m_id :: string
  m_name :: string
  m_owned_by :: string
  m_display_name :: string
  m_displayName :: string

record proxy_response =
  r_ok :: bool
  r_status :: int
  r_error :: string
  r_models :: "raw_model list option"

record model_entry =
  e_provider :: string
  e_id :: string
  e_displayName :: string
  e_ownedBy :: string
  e_sources :: "string list"

text \<open>The arguments of one call of \<^verbatim>\<open>collect\<close>.\<close>

record collect_args =
  c_provider :: string
  c_modelID :: string
  c_displayName :: string
  c_source :: string
  c_ownedBy :: string

text \<open>\<^verbatim>\<open>Set.prototype.add\<close> on a set kept in insertion order.\<close>

definition addSource :: "string list \<Rightarrow> string \<Rightarrow> string list" where
  "addSource srcs s = (if s \<in> set srcs then srcs else srcs @ [s])"

text \<open>The branch of \<^verbatim>\<open>collect\<close> for a key that is in the map already.\<close>

definition mergeInto :: "model_entry \<Rightarrow> collect_args \<Rightarrow> model_entry" where
  "mergeInto existing c =
     existing\<lparr>e_sources := addSource (e_sources existing) (c_source c),
              e_displayName := (if e_displayName existing = [] \<and> c_displayName c \<noteq> []
                                then c_displayName c else e_displayName existing)\<rparr>"

text \<open>The branch of \<^verbatim>\<open>collect\<close> for a new key.\<close>

definition newEntry :: "collect_args \<Rightarrow> model_entry" where
  "newEntry c =
     \<lparr>e_provider = c_provider c, e_id = normalizeModelID (c_modelID c),
      e_displayName = trim (c_displayName c), e_ownedBy = trim (c_ownedBy c),
      e_sources = [c_source c]\<rparr>"

text \<open>The key of a call, \<^const>\<open>None\<close> when the call returns at once for an empty id.\<close>

definition keyOf :: "collect_args \<Rightarrow> string option" where
  "keyOf c =
     (let normalizedID = normalizeModelID (c_modelID c) in
      if normalizedID = [] then None else Some (c_provider c @ ''::'' @ normalizedID))"

definition collect :: "(string \<times> model_entry) list \<Rightarrow> collect_args \<Rightarrow> (string \<times> model_entry) list" where
  "collect entries c =
     (case keyOf c of
        None \<Rightarrow> entries
      | Some key \<Rightarrow>
          (case map_of entries key of
             Some existing \<Rightarrow> AList.update key (mergeInto existing c) entries
           | None \<Rightarrow> entries @ [(key, newEntry c)]))"

definition openaiCall :: "raw_model \<Rightarrow> collect_args" where
  "openaiCall model =
     \<lparr>c_provider = inferProviderFromModel (m_id model) (m_owned_by model),
      c_modelID = m_id model,
      c_displayName = m_display_name model,
      c_source = ''openai'',
      c_ownedBy = m_owned_by model\<rparr>"

definition geminiCall :: "raw_model \<Rightarrow> collect_args" where
  "geminiCall model =
     (let mid = orElse (m_name model) (m_id model) in
      \<lparr>c_provider = inferProviderFromModel mid (m_owned_by model),
       c_modelID = mid,
       c_displayName = orElse (m_displayName model) (m_display_name model),
       c_source = ''gemini'',
       c_ownedBy = m_owned_by model\<rparr>)"

text \<open>The models a response contributes: none unless it is ok and carries the array.\<close>

definition modelsOf :: "proxy_response \<Rightarrow> raw_model list" where
  "modelsOf resp = (if r_ok resp then (case r_models resp of None \<Rightarrow> [] | Some ms \<Rightarrow> ms) else [])"

text \<open>The map \<^verbatim>\<open>entries\<close> after both loops of \<^verbatim>\<open>getProviderModels\<close>.\<close>

definition mergedEntries :: "proxy_response \<Rightarrow> proxy_response \<Rightarrow> (string \<times> model_entry) list" where
  "mergedEntries openaiModelsResp geminiModelsResp =
     foldl collect (foldl collect [] (map openaiCall (modelsOf openaiModelsResp)))
       (map geminiCall (modelsOf geminiModelsResp))"

text \<open>One model of the output and one provider group. The display field \<^verbatim>\<open>label\<close> is left out.\<close>

record model_out =
  o_id :: string
  o_displayName :: string
  o_ownedBy :: string
  o_sources :: "string list"

record provider_models =
  pm_provider :: string
  pm_count :: nat
  pm_models :: "model_out list"

text \<open>The object pushed for an entry; \<^verbatim>\<open>[...item.sources].sort()\<close> sorts the tags as strings.\<close>

definition modelOut :: "model_entry \<Rightarrow> model_out" where
  "modelOut item =
     \<lparr>o_id = e_id item, o_displayName = e_displayName item, o_ownedBy = e_ownedBy item,
      o_sources = sortBy codeUnitCompare (e_sources item)\<rparr>"

definition groupEntry ::
  "(string \<times> model_out list) list \<Rightarrow> model_entry \<Rightarrow> (string \<times> model_out list) list" where
  "groupEntry byProvider item =
     (let items = (case map_of byProvider (e_provider item) of None \<Rightarrow> [] | Some xs \<Rightarrow> xs)
      in AList.update (e_provider item) (items @ [modelOut item]) byProvider)"

record endpoint_status =
  es_ok :: bool
  es_status :: int
  es_count :: nat
  es_error :: string

definition endpointStatusOf :: "proxy_response \<Rightarrow> endpoint_status" where
  "endpointStatusOf resp =
     \<lparr>es_ok = r_ok resp, es_status = r_status resp, es_count = length (modelsOf resp),
      es_error = r_error resp\<rparr>"

text \<open>
  The result of \<^verbatim>\<open>getProviderModels\<close> for the two responses. Its \<^verbatim>\<open>generatedAt\<close>,
  \<^verbatim>\<open>proxyBase\<close> and \<^verbatim>\<open>authorization\<close>, which do not depend on the responses, are left out.
\<close>

record catalogue =
  openaiStatus :: endpoint_status
  geminiStatus :: endpoint_status
  totalModels :: nat
  providerModels :: "provider_models list"

definition getProviderModels :: "runtime \<Rightarrow> proxy_response \<Rightarrow> proxy_response \<Rightarrow> catalogue" where
  "getProviderModels rt openaiModelsResp geminiModelsResp =
     (let entries = mergedEntries openaiModelsResp geminiModelsResp;
          byProvider = foldl groupEntry [] (map snd entries);
          groups =
            map (\<lambda>p. let models = sortBy (\<lambda>a b. localeCompare rt (o_id a) (o_id b))
                                      (case map_of byProvider p of None \<Rightarrow> [] | Some xs \<Rightarrow> xs)
                      in \<lparr>pm_provider = p, pm_count = length models, pm_models = models\<rparr>)
              (sortBy (sortProviders rt) (map fst byProvider))
      in \<lparr>openaiStatus = endpointStatusOf openaiModelsResp,
          geminiStatus = endpointStatusOf geminiModelsResp,
          totalModels = sum_list (map pm_count groups),
          providerModels = groups\<rparr>)"

text \<open>Every entry of the map sits under the key made of its own provider and id.\<close>

definition keyed :: "(string \<times> model_entry) list \<Rightarrow> bool" where
  "keyed es = list_all (\<lambda>(k, e). k = e_provider e @ ''::'' @ e_id e) es"

text \<open>
  \<^verbatim>\<open>Promise.all([p0, p1])\<close>: each promise, when it settles, stores its value in the slot
  of its own index; the combined promise is fulfilled once every slot is filled. The
  argument lists the arrivals in the order in which they happen.
\<close>

definition promiseAll :: "nat \<Rightarrow> (nat \<times> 'a) list \<Rightarrow> 'a list option" where
  "promiseAll n arrivals =
     (let slots = foldl (\<lambda>sl (i, v). sl[i := Some v]) (replicate n None) arrivals in
      if list_all (\<lambda>x. x \<noteq> None) slots then Some (map the slots) else None)"

text \<open>\<^verbatim>\<open>getProviderModels\<close> from the arrivals of the two responses; \<^const>\<open>None\<close> while it waits.\<close>

definition getProviderModelsAsync :: "runtime \<Rightarrow> (nat \<times> proxy_response) list \<Rightarrow> catalogue option" where
  "getProviderModelsAsync rt arrivals =
     (case promiseAll 2 arrivals of
        Some [openaiModelsResp, geminiModelsResp] \<Rightarrow>
          Some (getProviderModels rt openaiModelsResp geminiModelsResp)
      | _ \<Rightarrow> None)"

text \<open>
  The display name the calls of one key leave behind, from their display names in call
  order: the first call creates the entry with its name trimmed; a later call fills in its
  name, as it is, when the entry has none and the name is not empty.
\<close>

fun firstDisplayName :: "string list \<Rightarrow> string" where
  "firstDisplayName [] = []"
| "firstDisplayName (d # ds) =
     (if trim d \<noteq> [] then trim d
      else (case filter (\<lambda>x. x \<noteq> []) ds of [] \<Rightarrow> [] | x # _ \<Rightarrow> x))"

text \<open>
  The first of a list of display names that is not blank, without the white space around
  it; empty when every name is blank.
\<close>

definition firstNonBlank :: "string list \<Rightarrow> string" where
  "firstNonBlank ds = (case filter (\<lambda>d. d \<noteq> []) (map trim ds) of [] \<Rightarrow> [] | d # _ \<Rightarrow> d)"

section \<open>Worked example: a runtime, a clock reading and four credential files\<close>

text \<open>
  The concrete data the example theorems below are evaluated on. The collation is the
  comparison of strings by character code; the two timestamps are
  \<^verbatim>\<open>2026-01-02T00:00:00.000Z\<close> and \<^verbatim>\<open>2025-12-31T00:00:00.000Z\<close>, and the clock stands ten
  hours before the first.
\<close>

definition exampleRuntime :: runtime where
  "exampleRuntime =
     \<lparr>dateParse = map_of [(''2026-01-02T00:00:00.000Z'', 1767312000000),
                          (''2025-12-31T00:00:00.000Z'', 1767139200000)],
      toISOString = (\<lambda>ms. if ms = 1767312000000 then ''2026-01-02T00:00:00.000Z''
                           else if ms = 1767139200000 then ''2025-12-31T00:00:00.000Z'' else []),
      localeCompare = codeUnitCompare\<rparr>"

definition exampleNow :: int where
  "exampleNow = 1767276000000"

definition claudeFile :: oauth_file where
  "claudeFile = \<lparr>fileName = ''claude.json'', provider = ''claude'', email = ''a@example.org'',
     expiresAt = ''2026-01-02T00:00:00.000Z'', lastRefresh = [], modifiedAt = [], fileSize = 120,
     parseError = []\<rparr>"

definition anthropicFile :: oauth_file where
  "anthropicFile = \<lparr>fileName = ''old.json'', provider = ''Anthropic'', email = [],
     expiresAt = ''2025-12-31T00:00:00.000Z'', lastRefresh = [], modifiedAt = [], fileSize = 98,
     parseError = []\<rparr>"

definition mistralFile :: oauth_file where
  "mistralFile = \<lparr>fileName = ''mistral.json'', provider = ''mistral'', email = [],
     expiresAt = [], lastRefresh = [], modifiedAt = [], fileSize = 3,
     parseError = ''Unexpected end of JSON input''\<rparr>"

definition zetaFile :: oauth_file where
  "zetaFile = \<lparr>fileName = ''zeta.json'', provider = ''Zeta'', email = [],
     expiresAt = [], lastRefresh = [], modifiedAt = [], fileSize = 40, parseError = []\<rparr>"

definition exampleFiles :: "oauth_file list" where
  "exampleFiles = [claudeFile, mistralFile, anthropicFile, zetaFile]"

definition exampleStaticCounts :: "(string \<times> int) list" where
  "exampleStaticCounts =
     [(''proxy-access'', 2), (''gemini'', 0), (''claude'', 0), (''codex'', 0),
      (''openai-compat'', 0), (''qwen'', 0), (''iflow'', 0)]"

definition exampleConfig :: config where
  "exampleConfig =
     \<lparr>COMPOSE_FILE = ''docker-compose.yml'', DEFAULT_SERVICE = ''api4llm'',
      TARGET_CONTAINER = ''api4llm'', DOCKER_MODE = ''auto''\<rparr>"

definition exampleRow :: docker_row where
  "exampleRow =
     \<lparr>Service = [], Name = [], Names = ''api4llm'', State = ''running'', Status = ''Up 2 hours'',
      Image = ''api4llm:latest'', CreatedAt = ''2026-01-01 10:00:00 +0000 UTC'',
      RunningFor = ''2 hours ago'', ExitCode = None, ID = ''3f2a9c1d7b40''\<rparr>"

text \<open>
  A host where \<^verbatim>\<open>docker compose\<close> fails and plain \<^verbatim>\<open>docker\<close> works: \<^verbatim>\<open>docker ps\<close>
  prints one row and \<^verbatim>\<open>docker inspect\<close> reports a running container.
\<close>

definition exampleEnv :: docker_env where
  "exampleEnv =
     \<lparr>run = (\<lambda>cmd args.
         if take 1 args = [''compose''] then
           \<lparr>code = 1, signal = None, timedOut = False, stdout = [],
            stderr = ''no configuration file provided: not found''\<rparr>
         else \<lparr>code = 0, signal = None, timedOut = False, stdout = ''{}'', stderr = []\<rparr>),
      splitJSONLines = (\<lambda>out. if out = [] then [] else [exampleRow]),
      parseInspect = (\<lambda>payload. Some \<lparr>p_Status = ''running'', p_Running = True, p_ExitCode = Some 0,
                                       p_StartedAt = [], p_FinishedAt = []\<rparr>),
      parseTimestamp = (\<lambda>raw. raw),
      clock = ''2026-01-01T12:00:00.000Z''\<rparr>"

text \<open>
  Two listings of the proxy. The first endpoint lists \<^verbatim>\<open>gpt-4o\<close> without a display name,
  the second lists it as \<^verbatim>\<open>models/gpt-4o\<close> with one. The other records carry display
  names of white space only.
\<close>

definition okResponse :: "raw_model list \<Rightarrow> proxy_response" where
  "okResponse ms = \<lparr>r_ok = True, r_status = 200, r_error = [], r_models = Some ms\<rparr>"

definition gpt4oOpenai :: raw_model where
  "gpt4oOpenai = \<lparr>m_id = ''gpt-4o'', m_name = [], m_owned_by = ''openai'', m_display_name = [],
     m_displayName = []\<rparr>"

definition gpt4oGemini :: raw_model where
  "gpt4oGemini = \<lparr>m_id = [], m_name = ''models/gpt-4o'', m_owned_by = [], m_display_name = [],
     m_displayName = ''GPT-4o''\<rparr>"

definition blankNameOpenai :: raw_model where
  "blankNameOpenai = \<lparr>m_id = ''gpt-4o'', m_name = [], m_owned_by = [], m_display_name = '' '',
     m_displayName = []\<rparr>"

definition blankNameGemini :: raw_model where
  "blankNameGemini = \<lparr>m_id = [], m_name = ''models/gpt-4o'', m_owned_by = [], m_display_name = [],
     m_displayName = ''  ''\<rparr>"

definition namedGemini :: raw_model where
  "namedGemini = \<lparr>m_id = [], m_name = ''gpt-4o'', m_owned_by = [], m_display_name = [],
     m_displayName = ''GPT-4o''\<rparr>"

text \<open>Membership in \<^const>\<open>PROVIDER_ORDER\<close>, that is \<^verbatim>\<open>PROVIDER_ORDER.indexOf(a) >= 0\<close>.\<close>

definition canon :: "string \<Rightarrow> bool" where
  "canon a = (a \<in> set PROVIDER_ORDER)"

section \<open>Facts about the string functions\<close>

lemma startsWith_iff: "startsWith s k \<longleftrightarrow> (\<exists>q. s = k @ q)"
  by (induction s k rule: startsWith.induct) auto

lemma includesStr_iff: "includesStr s k \<longleftrightarrow> (\<exists>p q. s = p @ k @ q)"
proof (induction s)
  case Nil
  then show ?case by simp
next
  case (Cons c cs)
  show ?case
  proof
    assume "includesStr (c # cs) k"
    then consider "startsWith (c # cs) k" | "includesStr cs k" by auto
    then show "\<exists>p q. c # cs = p @ k @ q"
    proof cases
      case 1
      then obtain q where "c # cs = k @ q" by (auto simp: startsWith_iff)
      then have "c # cs = [] @ k @ q" by simp
      then show ?thesis by blast
    next
      case 2
      then obtain p q where "cs = p @ k @ q" using Cons.IH by blast
      then have "c # cs = (c # p) @ k @ q" by simp
      then show ?thesis by blast
    qed
  next
    assume "\<exists>p q. c # cs = p @ k @ q"
    then obtain p q where pq: "c # cs = p @ k @ q" by blast
    show "includesStr (c # cs) k"
    proof (cases p)
      case Nil
      with pq have "startsWith (c # cs) k" by (auto simp: startsWith_iff)
      then show ?thesis by simp
    next
      case (Cons a p')
      with pq have "cs = p' @ k @ q" by simp
      then have "includesStr cs k" using Cons.IH by blast
      then show ?thesis by simp
    qed
  qed
qed

lemma isSpace_lowerChar: "isSpace (lowerChar c) = isSpace c"
  by (simp add: lowerChar_def isSpace_def)

lemma dropWhile_isSpace_lower:
  "dropWhile isSpace (map lowerChar s) = map lowerChar (dropWhile isSpace s)"
  by (induction s) (auto simp: isSpace_lowerChar)

lemma trim_toLowerCase: "toLowerCase (trim s) = trim (toLowerCase s)"
  by (simp add: trim_def toLowerCase_def dropWhile_isSpace_lower rev_map)

lemma includesStr_toLowerCase:
  "includesStr s k \<Longrightarrow> includesStr (toLowerCase s) (toLowerCase k)"
proof -
  assume "includesStr s k"
  then obtain p q where "s = p @ k @ q" by (auto simp: includesStr_iff)
  then have "toLowerCase s = toLowerCase p @ toLowerCase k @ toLowerCase q"
    by (simp add: toLowerCase_def)
  then show ?thesis unfolding includesStr_iff by blast
qed

lemma includesStr_rev: "includesStr (rev s) (rev k) = includesStr s k"
proof -
  have "includesStr s k \<Longrightarrow> includesStr (rev s) (rev k)" for s k
  proof -
    assume "includesStr s k"
    then obtain p q where "s = p @ k @ q" by (auto simp: includesStr_iff)
    then have "rev s = rev q @ rev k @ rev p" by simp
    then show ?thesis unfolding includesStr_iff by blast
  qed
  from this [of s k] this [of "rev s" "rev k"] show ?thesis by auto
qed

lemma includesStr_dropWhile:
  assumes "k \<noteq> []" "\<not> P (hd k)"
  shows "includesStr (dropWhile P s) k = includesStr s k"
proof
  assume "includesStr (dropWhile P s) k"
  then obtain p q where "dropWhile P s = p @ k @ q" by (auto simp: includesStr_iff)
  then have "s = (takeWhile P s @ p) @ k @ q"
    by (metis append.assoc takeWhile_dropWhile_id)
  then show "includesStr s k" unfolding includesStr_iff by blast
next
  assume "includesStr s k"
  then obtain p q where s: "s = p @ k @ q" by (auto simp: includesStr_iff)
  from assms obtain c k' where k: "k = c # k'" "\<not> P c" by (cases k) auto
  show "includesStr (dropWhile P s) k"
  proof (cases "\<forall>x\<in>set p. P x")
    case True
    then have "dropWhile P s = [] @ k @ q" using s k by (simp add: dropWhile_append)
    then show ?thesis unfolding includesStr_iff by blast
  next
    case False
    then have "dropWhile P s = dropWhile P p @ k @ q" using s by (auto simp: dropWhile_append)
    then show ?thesis unfolding includesStr_iff by blast
  qed
qed

lemma includesStr_trim:
  assumes "k \<noteq> []" "\<not> isSpace (hd k)" "\<not> isSpace (last k)"
  shows "includesStr (trim s) k = includesStr s k"
proof -
  have "includesStr (trim s) k = includesStr (dropWhile isSpace (rev (dropWhile isSpace s))) (rev k)"
    unfolding trim_def using includesStr_rev [of "dropWhile isSpace (rev (dropWhile isSpace s))" "rev k"]
    by simp
  also have "\<dots> = includesStr (rev (dropWhile isSpace s)) (rev k)"
    using assms by (intro includesStr_dropWhile) (auto simp: hd_rev)
  also have "\<dots> = includesStr (dropWhile isSpace s) k" by (rule includesStr_rev)
  also have "\<dots> = includesStr s k" using assms by (intro includesStr_dropWhile) auto
  finally show ?thesis .
qed

lemma includes_lower_trim:
  assumes "k \<noteq> []" "\<not> isSpace (hd k)" "\<not> isSpace (last k)"
  shows "includesStr (toLowerCase (trim raw)) k = includesStr (toLowerCase raw) k"
  by (simp add: trim_toLowerCase includesStr_trim assms)

lemmas kw = includes_lower_trim isSpace_def

lemma normalizeProviderName_closed_or_passthrough:
  "normalizeProviderName raw \<in> set PROVIDER_ORDER \<or> normalizeProviderName raw = toLowerCase (trim raw)"
  by (simp add: normalizeProviderName_def PROVIDER_ORDER_def Let_def)

section \<open>Provider normalization: the rules and their order\<close>

text \<open>
  Claim C4, as the code has it. \<^const>\<open>normalizeProviderName\<close> returns one of the eight
  canonical identifiers or, when no rule matches, the trimmed and lower-cased input itself.
  The rules are tried in a fixed order and the first match wins: a blank input gives
  \<^verbatim>\<open>unknown\<close>; an input that contains \<^verbatim>\<open>proxy\<close>, or that is \<^verbatim>\<open>api-keys\<close> or
  \<^verbatim>\<open>api_keys\<close> once trimmed and lower-cased, gives \<^verbatim>\<open>proxy-access\<close>; an input
  containing \<^verbatim>\<open>claude\<close> or \<^verbatim>\<open>anthropic\<close> and not \<^verbatim>\<open>proxy\<close> gives \<^verbatim>\<open>claude\<close>; an
  input containing \<^verbatim>\<open>codex\<close> or \<^verbatim>\<open>openai\<close>, or equal to \<^verbatim>\<open>gpt\<close>, and containing no
  earlier keyword gives \<^verbatim>\<open>codex\<close>; then, each time for an input containing no earlier
  keyword, \<^verbatim>\<open>gemini\<close> gives \<^verbatim>\<open>gemini\<close>, \<^verbatim>\<open>qwen\<close> gives \<^verbatim>\<open>qwen\<close>, \<^verbatim>\<open>iflow\<close> gives
  \<^verbatim>\<open>iflow\<close>, and \<^verbatim>\<open>compat\<close> or \<^verbatim>\<open>openrouter\<close> gives \<^verbatim>\<open>openai-compat\<close>; an input
  that matches no rule at all is passed through. Containment is case-insensitive, so it is
  stated on the lower-cased input. The ten conjuncts cover every input and so determine the
  function.
\<close>

theorem normalizeProviderName_first_match:
  "(normalizeProviderName raw \<in> set PROVIDER_ORDER \<or> normalizeProviderName raw = toLowerCase (trim raw))
 \<and> (trim raw = [] \<longrightarrow> normalizeProviderName raw = ''unknown'')
 \<and> (includesStr (toLowerCase raw) ''proxy'' \<or> toLowerCase (trim raw) \<in> {''api-keys'', ''api_keys''}
      \<longrightarrow> normalizeProviderName raw = ''proxy-access'')
 \<and> ((includesStr (toLowerCase raw) ''claude'' \<or> includesStr (toLowerCase raw) ''anthropic'')
      \<and> \<not> includesStr (toLowerCase raw) ''proxy''
      \<longrightarrow> normalizeProviderName raw = ''claude'')
 \<and> ((includesStr (toLowerCase raw) ''codex'' \<or> includesStr (toLowerCase raw) ''openai''
        \<or> toLowerCase (trim raw) = ''gpt'')
      \<and> (\<forall>k \<in> set [''proxy'', ''claude'', ''anthropic'']. \<not> includesStr (toLowerCase raw) k)
      \<longrightarrow> normalizeProviderName raw = ''codex'')
 \<and> (includesStr (toLowerCase raw) ''gemini''
      \<and> (\<forall>k \<in> set [''proxy'', ''claude'', ''anthropic'', ''codex'', ''openai''].
            \<not> includesStr (toLowerCase raw) k)
      \<longrightarrow> normalizeProviderName raw = ''gemini'')
 \<and> (includesStr (toLowerCase raw) ''qwen''
      \<and> (\<forall>k \<in> set [''proxy'', ''claude'', ''anthropic'', ''codex'', ''openai'', ''gemini''].
            \<not> includesStr (toLowerCase raw) k)
      \<longrightarrow> normalizeProviderName raw = ''qwen'')
 \<and> (includesStr (toLowerCase raw) ''iflow''
      \<and> (\<forall>k \<in> set [''proxy'', ''claude'', ''anthropic'', ''codex'', ''openai'', ''gemini'', ''qwen''].
            \<not> includesStr (toLowerCase raw) k)
      \<longrightarrow> normalizeProviderName raw = ''iflow'')
 \<and> ((includesStr (toLowerCase raw) ''compat'' \<or> includesStr (toLowerCase raw) ''openrouter'')
      \<and> (\<forall>k \<in> set [''proxy'', ''claude'', ''anthropic'', ''codex'', ''openai'', ''gemini'', ''qwen'',
                      ''iflow'']. \<not> includesStr (toLowerCase raw) k)
      \<longrightarrow> normalizeProviderName raw = ''openai-compat'')
 \<and> (trim raw \<noteq> []
      \<and> toLowerCase (trim raw) \<notin> {''api-keys'', ''api_keys'', ''gpt''}
      \<and> (\<forall>k \<in> set [''proxy'', ''claude'', ''anthropic'', ''codex'', ''openai'', ''gemini'', ''qwen'',
                      ''iflow'', ''compat'', ''openrouter'']. \<not> includesStr (toLowerCase raw) k)
      \<longrightarrow> normalizeProviderName raw = toLowerCase (trim raw))"
proof -
  define v where "v = toLowerCase (trim raw)"
  have inc:
    "includesStr (toLowerCase raw) ''proxy'' = includesStr v ''proxy''"
    "includesStr (toLowerCase raw) ''claude'' = includesStr v ''claude''"
    "includesStr (toLowerCase raw) ''anthropic'' = includesStr v ''anthropic''"
    "includesStr (toLowerCase raw) ''codex'' = includesStr v ''codex''"
    "includesStr (toLowerCase raw) ''openai'' = includesStr v ''openai''"
    "includesStr (toLowerCase raw) ''gemini'' = includesStr v ''gemini''"
    "includesStr (toLowerCase raw) ''qwen'' = includesStr v ''qwen''"
    "includesStr (toLowerCase raw) ''iflow'' = includesStr v ''iflow''"
    "includesStr (toLowerCase raw) ''compat'' = includesStr v ''compat''"
    "includesStr (toLowerCase raw) ''openrouter'' = includesStr v ''openrouter''"
    unfolding v_def by (simp_all add: kw)
  have blank: "trim raw = [] \<longleftrightarrow> v = []" by (simp add: v_def toLowerCase_def)
  have n: "normalizeProviderName raw =
      (if v = [] then ''unknown''
      else if includesStr v ''proxy'' \<or> v = ''api-keys'' \<or> v = ''api_keys'' then ''proxy-access''
      else if includesStr v ''claude'' \<or> includesStr v ''anthropic'' then ''claude''
      else if includesStr v ''codex'' \<or> includesStr v ''openai'' \<or> v = ''gpt'' then ''codex''
      else if includesStr v ''gemini'' then ''gemini''
      else if includesStr v ''qwen'' then ''qwen''
      else if includesStr v ''iflow'' then ''iflow''
      else if includesStr v ''compat'' \<or> includesStr v ''openrouter'' then ''openai-compat''
      else v)"
    by (simp add: normalizeProviderName_def Let_def v_def)
  show ?thesis
    unfolding blank [unfolded v_def] 
    apply (fold v_def)
    apply (simp only: list.set ball_simps inc)
    apply (intro conjI impI)
             apply (simp add: n PROVIDER_ORDER_def)
            apply (simp add: n)
           apply (auto simp: n)[1]
          apply (auto simp: n)[1]
         apply (auto simp: n)[1]
        apply (auto simp: n)[1]
       apply (auto simp: n)[1]
      apply (auto simp: n)[1]
     apply (auto simp: n)[1]
    apply (auto simp: n)[1]
    done
qed

text \<open>
  The rules of C4 at concrete inputs, one or two for each rule; the second input consists of
  a no-break space (U+00A0) and a tab.
\<close>

theorem normalizeProviderName_first_match_witness:
  "normalizeProviderName ''   '' = ''unknown''
 \<and> normalizeProviderName [CHR 0xA0, CHR 0x09] = ''unknown''
 \<and> normalizeProviderName ''My-Proxy'' = ''proxy-access''
 \<and> normalizeProviderName '' API_KEYS'' = ''proxy-access''
 \<and> normalizeProviderName '' Anthropic '' = ''claude''
 \<and> normalizeProviderName ''OpenAI'' = ''codex''
 \<and> normalizeProviderName ''GPT'' = ''codex''
 \<and> normalizeProviderName ''Gemini-CLI'' = ''gemini''
 \<and> normalizeProviderName ''Qwen'' = ''qwen''
 \<and> normalizeProviderName ''iFlow'' = ''iflow''
 \<and> normalizeProviderName ''OpenRouter'' = ''openai-compat''
 \<and> normalizeProviderName ''Mistral'' = ''mistral''"
proof -
  note ev = trim_def toLowerCase_def lowerChar_def isSpace_def
  have "trim ''   '' = []" by (simp add: ev)
  with normalizeProviderName_first_match [of "''   ''"]
  have 1: "normalizeProviderName ''   '' = ''unknown''" by blast
  have "trim [CHR 0xA0, CHR 0x09] = []" by (simp add: ev)
  with normalizeProviderName_first_match [of "[CHR 0xA0, CHR 0x09]"]
  have 2: "normalizeProviderName [CHR 0xA0, CHR 0x09] = ''unknown''" by blast
  have "includesStr (toLowerCase ''My-Proxy'') ''proxy''" by (simp add: ev)
  with normalizeProviderName_first_match [of "''My-Proxy''"]
  have 3: "normalizeProviderName ''My-Proxy'' = ''proxy-access''" by blast
  have "toLowerCase (trim '' API_KEYS'') \<in> {''api-keys'', ''api_keys''}" by (simp add: ev)
  with normalizeProviderName_first_match [of "'' API_KEYS''"]
  have 4: "normalizeProviderName '' API_KEYS'' = ''proxy-access''" by blast
  have "(includesStr (toLowerCase '' Anthropic '') ''claude''
        \<or> includesStr (toLowerCase '' Anthropic '') ''anthropic'')
      \<and> \<not> includesStr (toLowerCase '' Anthropic '') ''proxy''" by (simp add: ev)
  with normalizeProviderName_first_match [of "'' Anthropic ''"]
  have 5: "normalizeProviderName '' Anthropic '' = ''claude''" by blast
  have "(includesStr (toLowerCase ''OpenAI'') ''codex'' \<or> includesStr (toLowerCase ''OpenAI'') ''openai''
        \<or> toLowerCase (trim ''OpenAI'') = ''gpt'')
      \<and> (\<forall>k \<in> set [''proxy'', ''claude'', ''anthropic'']. \<not> includesStr (toLowerCase ''OpenAI'') k)" by (simp add: ev)
  with normalizeProviderName_first_match [of "''OpenAI''"]
  have 6: "normalizeProviderName ''OpenAI'' = ''codex''" by blast
  have "(includesStr (toLowerCase ''GPT'') ''codex'' \<or> includesStr (toLowerCase ''GPT'') ''openai''
        \<or> toLowerCase (trim ''GPT'') = ''gpt'')
      \<and> (\<forall>k \<in> set [''proxy'', ''claude'', ''anthropic'']. \<not> includesStr (toLowerCase ''GPT'') k)" by (simp add: ev)
  with normalizeProviderName_first_match [of "''GPT''"]
  have 7: "normalizeProviderName ''GPT'' = ''codex''" by blast
  have "includesStr (toLowerCase ''Gemini-CLI'') ''gemini''
      \<and> (\<forall>k \<in> set [''proxy'', ''claude'', ''anthropic'', ''codex'', ''openai'']. \<not> includesStr (toLowerCase ''Gemini-CLI'') k)" by (simp add: ev)
  with normalizeProviderName_first_match [of "''Gemini-CLI''"]
  have 8: "normalizeProviderName ''Gemini-CLI'' = ''gemini''" by blast
  have "includesStr (toLowerCase ''Qwen'') ''qwen''
      \<and> (\<forall>k \<in> set [''proxy'', ''claude'', ''anthropic'', ''codex'', ''openai'', ''gemini'']. \<not> includesStr (toLowerCase ''Qwen'') k)" by (simp add: ev)
  with normalizeProviderName_first_match [of "''Qwen''"]
  have 9: "normalizeProviderName ''Qwen'' = ''qwen''" by blast
  have "includesStr (toLowerCase ''iFlow'') ''iflow''
      \<and> (\<forall>k \<in> set [''proxy'', ''claude'', ''anthropic'', ''codex'', ''openai'', ''gemini'', ''qwen'']. \<not> includesStr (toLowerCase ''iFlow'') k)" by (simp add: ev)
  with normalizeProviderName_first_match [of "''iFlow''"]
  have 10: "normalizeProviderName ''iFlow'' = ''iflow''" by blast
  have "(includesStr (toLowerCase ''OpenRouter'') ''compat'' \<or> includesStr (toLowerCase ''OpenRouter'') ''openrouter'')
      \<and> (\<forall>k \<in> set [''proxy'', ''claude'', ''anthropic'', ''codex'', ''openai'', ''gemini'', ''qwen'', ''iflow'']. \<not> includesStr (toLowerCase ''OpenRouter'') k)" by (simp add: ev)
  with normalizeProviderName_first_match [of "''OpenRouter''"]
  have 11: "normalizeProviderName ''OpenRouter'' = ''openai-compat''" by blast
  have "trim ''Mistral'' \<noteq> []
      \<and> toLowerCase (trim ''Mistral'') \<notin> {''api-keys'', ''api_keys'', ''gpt''}
      \<and> (\<forall>k \<in> set [''proxy'', ''claude'', ''anthropic'', ''codex'', ''openai'', ''gemini'', ''qwen'', ''iflow'', ''compat'', ''openrouter'']. \<not> includesStr (toLowerCase ''Mistral'') k)"
    and m: "toLowerCase (trim ''Mistral'') = ''mistral''" by (simp_all add: ev)
  with normalizeProviderName_first_match [of "''Mistral''"]
  have 12: "normalizeProviderName ''Mistral'' = ''mistral''" by metis
  from 1 2 3 4 5 6 7 8 9 10 11 12 show ?thesis by blast
qed

text \<open>
  The claim C4 as stated fails: \<^verbatim>\<open>gpt-4\<close> contains \<^verbatim>\<open>gpt\<close> and is neither mapped to
  \<^verbatim>\<open>codex\<close> nor to any canonical identifier, and \<^verbatim>\<open>claude-proxy\<close> contains
  \<^verbatim>\<open>claude\<close> and is mapped to \<^verbatim>\<open>proxy-access\<close>.
\<close>

theorem normalizeProviderName_not_closed_counterexample:
  "normalizeProviderName ''gpt-4'' = ''gpt-4''
 \<and> normalizeProviderName ''gpt-4'' \<notin> set PROVIDER_ORDER
 \<and> includesStr ''gpt-4'' ''gpt''
 \<and> normalizeProviderName ''claude-proxy'' = ''proxy-access''
 \<and> includesStr ''claude-proxy'' ''claude''"
  by (simp add: normalizeProviderName_def PROVIDER_ORDER_def trim_def toLowerCase_def lowerChar_def isSpace_def)

section \<open>Log stream: the sanitized container name\<close>

text \<open>
  Claim C10. For every container name the consumer supplies to the log stream endpoint,
  the last argument of the log-follow subprocess is that name with every character outside
  \<^verbatim>\<open>[a-zA-Z0-9_.-]\<close> removed; when no name (or an empty one) is supplied the configured
  container takes its place and is filtered the same way. In every case the argument
  consists of characters of that set only.
\<close>

theorem logsStreamRoute_sanitized:
  "(name \<noteq> [] \<longrightarrow>
      logsStreamRoute cfg (Some name) =
        [''logs'', ''--timestamps'', ''--tail'', ''200'', ''--follow'', filter safeChar name])
 \<and> (param = None \<or> param = Some [] \<longrightarrow>
      logsStreamRoute cfg param =
        [''logs'', ''--timestamps'', ''--tail'', ''200'', ''--follow'', filter safeChar (TARGET_CONTAINER cfg)])
 \<and> (\<exists>arg. logsStreamRoute cfg param = [''logs'', ''--timestamps'', ''--tail'', ''200'', ''--follow'', arg]
        \<and> list_all safeChar arg)"
  by (auto simp: logsStreamRoute_def streamLogsArgs_def safeContainer_def list_all_iff split: option.splits)

text \<open>C10 at a name carrying shell metacharacters, and at a request without a name.\<close>

theorem logsStreamRoute_sanitized_witness:
  "logsStreamRoute \<lparr>COMPOSE_FILE = ''docker-compose.yml'', DEFAULT_SERVICE = ''api4llm'',
      TARGET_CONTAINER = ''api4llm'', DOCKER_MODE = ''auto''\<rparr> (Some ''api4llm; rm -rf /'')
   = [''logs'', ''--timestamps'', ''--tail'', ''200'', ''--follow'', ''api4llmrm-rf'']
 \<and> logsStreamRoute \<lparr>COMPOSE_FILE = ''docker-compose.yml'', DEFAULT_SERVICE = ''api4llm'',
      TARGET_CONTAINER = ''api4llm'', DOCKER_MODE = ''auto''\<rparr> None
   = [''logs'', ''--timestamps'', ''--tail'', ''200'', ''--follow'', ''api4llm'']"
  using logsStreamRoute_sanitized [of "''api4llm; rm -rf /''" "\<lparr>COMPOSE_FILE = ''docker-compose.yml'', DEFAULT_SERVICE = ''api4llm'',
      TARGET_CONTAINER = ''api4llm'', DOCKER_MODE = ''auto''\<rparr>" None]
  by (simp add: safeChar_def)

section \<open>Credential freshness by expiry\<close>

text \<open>
  Claim C1. For every credential file with no parse error and a parseable expiry timestamp,
  the freshness level evaluated at \<open>nowMs\<close> is \<^const>\<open>Expired\<close> when the expiry is at or
  before now, \<^const>\<open>Warning\<close> when it is strictly after now and at most 24 hours away, and
  \<^const>\<open>Fresh\<close> when it is more than 24 hours away.
\<close>

theorem evaluateOAuthFileFreshness_expiry:
  assumes "parseError f = []" and "expiresAt f \<noteq> []"
    and "dateParse rt (expiresAt f) = Some expiryMs"
  shows "level (evaluateOAuthFileFreshness rt f nowMs) =
           (if expiryMs \<le> nowMs then Expired
            else if expiryMs \<le> nowMs + 24 * 60 * 60 * 1000 then Warning
            else Fresh)"
  using assms by (simp add: evaluateOAuthFileFreshness_def parseIfPresent_def Let_def)

section \<open>Facts about the worked example\<close>

lemma codeUnitCompare_total: "codeUnitCompare a b \<le> 0 \<or> codeUnitCompare b a \<le> 0"
  by (induction a b rule: codeUnitCompare.induct) auto

lemma codeUnitCompare_Cons_le:
  "codeUnitCompare (x # xs) (y # ys) \<le> 0 \<longleftrightarrow>
     (of_char x :: nat) < of_char y \<or> ((of_char x :: nat) = of_char y \<and> codeUnitCompare xs ys \<le> 0)"
  by (cases "(of_char x :: nat) < of_char y"; cases "(of_char y :: nat) < of_char x") auto

lemma codeUnitCompare_trans:
  "codeUnitCompare a b \<le> 0 \<Longrightarrow> codeUnitCompare b c \<le> 0 \<Longrightarrow> codeUnitCompare a c \<le> 0"
proof (induction a arbitrary: b c)
  case Nil
  then show ?case by (cases c) simp_all
next
  case (Cons x xs)
  from Cons.prems(1) obtain y ys where b: "b = y # ys" by (cases b) simp_all
  from Cons.prems(2) b obtain z zs where c: "c = z # zs" by (cases c) simp_all
  from Cons.prems b c
  have 1: "(of_char x :: nat) < of_char y \<or> ((of_char x :: nat) = of_char y \<and> codeUnitCompare xs ys \<le> 0)"
    and 2: "(of_char y :: nat) < of_char z \<or> ((of_char y :: nat) = of_char z \<and> codeUnitCompare ys zs \<le> 0)"
    by (simp_all only: codeUnitCompare_Cons_le)
  have "(of_char x :: nat) < of_char z \<or> ((of_char x :: nat) = of_char z \<and> codeUnitCompare xs zs \<le> 0)"
    using 1 2 Cons.IH [of ys zs] by (metis less_trans)
  then show ?case unfolding c by (simp only: codeUnitCompare_Cons_le)
qed

lemma example_providerOfFile:
  "providerOfFile claudeFile = ''claude''"
  "providerOfFile anthropicFile = ''claude''"
  "providerOfFile mistralFile = ''mistral''"
  "providerOfFile zetaFile = ''zeta''"
  by (simp_all add: providerOfFile_def claudeFile_def anthropicFile_def mistralFile_def zetaFile_def
      normalizeProviderName_def trim_def toLowerCase_def lowerChar_def isSpace_def)

lemma example_levels:
  "level (evaluateOAuthFileFreshness exampleRuntime claudeFile exampleNow) = Warning"
  "level (evaluateOAuthFileFreshness exampleRuntime anthropicFile exampleNow) = Expired"
  "level (evaluateOAuthFileFreshness exampleRuntime mistralFile exampleNow) = Error"
  "level (evaluateOAuthFileFreshness exampleRuntime zetaFile exampleNow) = Unknown"
  by (simp_all add: evaluateOAuthFileFreshness_def parseIfPresent_def exampleRuntime_def exampleNow_def
      claudeFile_def anthropicFile_def mistralFile_def zetaFile_def Let_def)

text \<open>C1 at the example file: at the expiry, one millisecond before, 24 hours before, and beyond.\<close>

theorem evaluateOAuthFileFreshness_expiry_witness:
  "level (evaluateOAuthFileFreshness exampleRuntime claudeFile 1767312000000) = Expired
 \<and> level (evaluateOAuthFileFreshness exampleRuntime claudeFile 1767311999999) = Warning
 \<and> level (evaluateOAuthFileFreshness exampleRuntime claudeFile 1767225600000) = Warning
 \<and> level (evaluateOAuthFileFreshness exampleRuntime claudeFile 1767225599999) = Fresh"
proof -
  have h: "parseError claudeFile = []" "expiresAt claudeFile \<noteq> []"
    "dateParse exampleRuntime (expiresAt claudeFile) = Some 1767312000000"
    by (simp_all add: claudeFile_def exampleRuntime_def)
  show ?thesis
    using evaluateOAuthFileFreshness_expiry [OF h, of 1767312000000]
      evaluateOAuthFileFreshness_expiry [OF h, of 1767311999999]
      evaluateOAuthFileFreshness_expiry [OF h, of 1767225600000]
      evaluateOAuthFileFreshness_expiry [OF h, of 1767225599999]
    by simp
qed

section \<open>Provider health: grouping and the worst level\<close>

lemma map_of_groupStep:
  "map_of (groupStep g f) p =
     (if providerOfFile f = p
      then Some ((case map_of g p of None \<Rightarrow> [] | Some xs \<Rightarrow> xs) @ [f])
      else map_of g p)"
  by (simp add: groupStep_def Let_def update_conv')

lemma map_of_foldl_groupStep:
  "map_of (foldl groupStep g fs) p =
     (if filter (\<lambda>f. providerOfFile f = p) fs = [] then map_of g p
      else Some ((case map_of g p of None \<Rightarrow> [] | Some xs \<Rightarrow> xs) @ filter (\<lambda>f. providerOfFile f = p) fs))"
proof (induction fs arbitrary: g)
  case Nil
  then show ?case by simp
next
  case (Cons f fs)
  have "map_of (foldl groupStep g (f # fs)) p = map_of (foldl groupStep (groupStep g f) fs) p"
    by simp
  also note Cons.IH [of "groupStep g f"]
  finally show ?case
    by (simp add: map_of_groupStep split: option.splits)
qed

lemma groupFiles_lookup:
  "(case map_of (groupFiles fs) p of None \<Rightarrow> [] | Some xs \<Rightarrow> xs) = filter (\<lambda>f. providerOfFile f = p) fs"
  by (simp add: groupFiles_def map_of_foldl_groupStep)

lemma keys_groupStep: "fst ` set (groupStep g f) = insert (providerOfFile f) (fst ` set g)"
  by (simp add: groupStep_def Let_def dom_map_of_conv_image_fst [symmetric] update_conv')

lemma keys_foldl_groupStep:
  "fst ` set (foldl groupStep g fs) = fst ` set g \<union> providerOfFile ` set fs"
  by (induction fs arbitrary: g) (auto simp: keys_groupStep)

lemma groupFiles_keys: "fst ` set (groupFiles fs) = providerOfFile ` set fs"
  by (simp add: groupFiles_def keys_foldl_groupStep)

lemma worstOf_mem: "worstOf w es \<in> insert w (set es)"
  by (induction es arbitrary: w) auto

lemma worstOf_ge_init: "FRESHNESS_SEVERITY (level w) \<le> FRESHNESS_SEVERITY (level (worstOf w es))"
proof (induction es arbitrary: w)
  case Nil
  then show ?case by simp
next
  case (Cons e es)
  show ?case
  proof (cases "FRESHNESS_SEVERITY (level e) > FRESHNESS_SEVERITY (level w)")
    case True
    with Cons.IH [of e] show ?thesis by simp
  next
    case False
    with Cons.IH [of w] show ?thesis by simp
  qed
qed

lemma worstOf_ge_all:
  "e \<in> set es \<Longrightarrow> FRESHNESS_SEVERITY (level e) \<le> FRESHNESS_SEVERITY (level (worstOf w es))"
proof (induction es arbitrary: w)
  case Nil
  then show ?case by simp
next
  case (Cons c es)
  let ?w' = "if FRESHNESS_SEVERITY (level c) > FRESHNESS_SEVERITY (level w) then c else w"
  show ?case
  proof (cases "e = c")
    case True
    have "FRESHNESS_SEVERITY (level c) \<le> FRESHNESS_SEVERITY (level ?w')" by simp
    also have "\<dots> \<le> FRESHNESS_SEVERITY (level (worstOf ?w' es))" by (rule worstOf_ge_init)
    finally show ?thesis using True by simp
  next
    case False
    with Cons.prems have "e \<in> set es" by simp
    from Cons.IH [OF this, of ?w'] show ?thesis by simp
  qed
qed

lemma providerEntry_status_files:
  assumes "filter (\<lambda>f. providerOfFile f = p) fs \<noteq> []"
  shows "(\<exists>f \<in> set (filter (\<lambda>f. providerOfFile f = p) fs).
            status (providerEntry rt nowMs (groupFiles fs) sc p) = level (evaluateOAuthFileFreshness rt f nowMs))
       \<and> (\<forall>f \<in> set (filter (\<lambda>f. providerOfFile f = p) fs).
            FRESHNESS_SEVERITY (level (evaluateOAuthFileFreshness rt f nowMs))
              \<le> FRESHNESS_SEVERITY (status (providerEntry rt nowMs (groupFiles fs) sc p)))"
proof -
  define es where "es = filter (\<lambda>f. providerOfFile f = p) fs"
  define ev where "ev = map (\<lambda>entry. evaluateOAuthFileFreshness rt entry nowMs) es"
  from assms obtain e0 es' where es: "es = e0 # es'" by (cases es) (auto simp: es_def)
  then obtain v0 vs where ev: "ev = v0 # vs" by (auto simp: ev_def)
  have st: "status (providerEntry rt nowMs (groupFiles fs) sc p) = level (worstOf v0 ev)"
    using es ev unfolding providerEntry_def Let_def groupFiles_lookup es_def [symmetric] ev_def [symmetric]
    by simp
  have "worstOf v0 ev \<in> set ev" using worstOf_mem [of v0 ev] ev by auto
  then obtain f where "f \<in> set es" "worstOf v0 ev = evaluateOAuthFileFreshness rt f nowMs"
    by (auto simp: ev_def)
  moreover have "FRESHNESS_SEVERITY (level (evaluateOAuthFileFreshness rt f nowMs))
              \<le> FRESHNESS_SEVERITY (level (worstOf v0 ev))" if "f \<in> set es" for f
    using that worstOf_ge_all [of "evaluateOAuthFileFreshness rt f nowMs" ev v0] by (simp add: ev_def)
  ultimately show ?thesis unfolding st es_def [symmetric] by metis
qed

lemma providerEntry_status_nofiles:
  assumes "filter (\<lambda>f. providerOfFile f = p) fs = []"
  shows "status (providerEntry rt nowMs (groupFiles fs) sc p) =
           (if positive (staticKeyCountOf sc p) then Configured else Missing)"
    and "authMode (providerEntry rt nowMs (groupFiles fs) sc p) =
           (if positive (staticKeyCountOf sc p) then ''api-keys'' else ''none'')"
  using assms unfolding providerEntry_def Let_def groupFiles_lookup by simp_all

lemma providerEntry_provider [simp]: "h_provider (providerEntry rt nowMs g sc p) = p"
  by (simp add: providerEntry_def Let_def)

lemma providerEntry_staticKeyCount [simp]:
  "staticKeyCount (providerEntry rt nowMs g sc p) = staticKeyCountOf sc p"
  by (simp add: providerEntry_def Let_def)

section \<open>Provider health: the order of the output\<close>

lemma set_insertBy [simp]: "set (insertBy cmp x ys) = insert x (set ys)"
  by (induction ys) auto

lemma set_sortBy [simp]: "set (sortBy cmp xs) = set xs"
  by (induction xs) auto

lemma distinct_insertBy: "distinct (insertBy cmp x ys) = (x \<notin> set ys \<and> distinct ys)"
  by (induction ys) auto

lemma distinct_sortBy [simp]: "distinct (sortBy cmp xs) = distinct xs"
  by (induction xs) (auto simp: distinct_insertBy)

lemma sorted_wrt_insertBy:
  assumes total: "\<And>a b. cmp a b \<le> 0 \<or> cmp b a \<le> 0"
    and trans: "\<And>a b c. cmp a b \<le> 0 \<Longrightarrow> cmp b c \<le> 0 \<Longrightarrow> cmp a c \<le> 0"
    and "sorted_wrt (\<lambda>a b. cmp a b \<le> (0::int)) ys"
  shows "sorted_wrt (\<lambda>a b. cmp a b \<le> 0) (insertBy cmp x ys)"
  using assms(3)
proof (induction ys)
  case Nil
  then show ?case by simp
next
  case (Cons y ys)
  show ?case
  proof (cases "cmp x y \<le> 0")
    case True
    then have "\<forall>z \<in> set ys. cmp x z \<le> 0" using Cons.prems trans by auto
    with True Cons.prems show ?thesis by simp
  next
    case False
    then have "cmp y x \<le> 0" using total by blast
    with False Cons show ?thesis by auto
  qed
qed

lemma sorted_wrt_sortBy:
  assumes total: "\<And>a b. cmp a b \<le> 0 \<or> cmp b a \<le> 0"
    and trans: "\<And>a b c. cmp a b \<le> 0 \<Longrightarrow> cmp b c \<le> 0 \<Longrightarrow> cmp a c \<le> 0"
  shows "sorted_wrt (\<lambda>a b. cmp a b \<le> (0::int)) (sortBy cmp xs)"
proof (induction xs)
  case Nil
  then show ?case by simp
next
  case (Cons x xs)
  have "sorted_wrt (\<lambda>a b. cmp a b \<le> 0) (insertBy cmp x (sortBy cmp xs))"
    using total trans Cons.IH by (rule sorted_wrt_insertBy)
  then show ?case by simp
qed

lemma indexOf_ge0_iff: "indexOf xs a \<ge> 0 \<longleftrightarrow> a \<in> set xs"
  by (induction xs) (auto simp: Let_def)

lemma indexOf_nth: "a \<in> set xs \<Longrightarrow> xs ! nat (indexOf xs a) = a \<and> nat (indexOf xs a) < length xs"
proof (induction xs)
  case Nil
  then show ?case by simp
next
  case (Cons x xs)
  show ?case
  proof (cases "x = a")
    case True
    then show ?thesis by simp
  next
    case False
    with Cons.prems have a: "a \<in> set xs" by simp
    then have "indexOf xs a \<ge> 0" by (simp add: indexOf_ge0_iff)
    with False Cons.IH [OF a] show ?thesis by (simp add: Let_def nat_add_distrib)
  qed
qed

lemma indexOf_inj: "a \<in> set xs \<Longrightarrow> b \<in> set xs \<Longrightarrow> indexOf xs a = indexOf xs b \<Longrightarrow> a = b"
  using indexOf_nth by metis

lemma sortProviders_le:
  "sortProviders rt a b \<le> 0 \<longleftrightarrow>
     (if canon a then (canon b \<longrightarrow> indexOf PROVIDER_ORDER a \<le> indexOf PROVIDER_ORDER b)
      else \<not> canon b \<and> localeCompare rt a b \<le> 0)"
  by (simp add: sortProviders_def Let_def canon_def indexOf_ge0_iff)

lemma sortProviders_total:
  assumes "\<And>a b. localeCompare rt a b \<le> 0 \<or> localeCompare rt b a \<le> 0"
  shows "sortProviders rt a b \<le> 0 \<or> sortProviders rt b a \<le> 0"
  using assms [of a b] by (auto simp: sortProviders_le)

lemma sortProviders_trans:
  assumes "\<And>a b c. localeCompare rt a b \<le> 0 \<Longrightarrow> localeCompare rt b c \<le> 0 \<Longrightarrow> localeCompare rt a c \<le> 0"
    and "sortProviders rt a b \<le> 0" "sortProviders rt b c \<le> 0"
  shows "sortProviders rt a c \<le> 0"
  using assms(2,3) assms(1) [of a b c] by (auto simp: sortProviders_le split: if_splits)

lemma sorted_split_canon:
  assumes "sorted_wrt (\<lambda>a b. sortProviders rt a b \<le> 0) xs"
  shows "xs = filter canon xs @ filter (\<lambda>a. \<not> canon a) xs"
  using assms
proof (induction xs)
  case Nil
  then show ?case by simp
next
  case (Cons x xs)
  then have IH: "xs = filter canon xs @ filter (\<lambda>a. \<not> canon a) xs" by simp
  show ?case
  proof (cases "canon x")
    case True
    with IH show ?thesis by simp
  next
    case False
    with Cons.prems have "\<forall>y \<in> set xs. \<not> canon y" by (auto simp: sortProviders_le)
    then have "filter canon xs = []" "filter (\<lambda>a. \<not> canon a) xs = xs" by (auto simp: filter_empty_conv filter_id_conv)
    with False show ?thesis by simp
  qed
qed

lemma canonical_part_is_PROVIDER_ORDER:
  assumes sorted: "sorted_wrt (\<lambda>a b. sortProviders rt a b \<le> 0) xs"
    and "distinct xs" and sub: "set PROVIDER_ORDER \<subseteq> set xs"
  shows "filter canon xs = PROVIDER_ORDER"
proof -
  let ?ys = "filter canon xs"
  let ?idx = "indexOf PROVIDER_ORDER"
  have set_ys: "set ?ys = set PROVIDER_ORDER" using sub by (auto simp: canon_def)
  have "sorted_wrt (\<lambda>a b. sortProviders rt a b \<le> 0) ?ys" using sorted by (rule sorted_wrt_filter)
  then have "sorted_wrt (\<lambda>a b. ?idx a \<le> ?idx b) ?ys"
    by (rule sorted_wrt_mono_rel [rotated]) (auto simp: sortProviders_le)
  then have s1: "sorted (map ?idx ?ys)" by (simp add: sorted_map)
  have inj: "inj_on ?idx (set ?ys \<union> set PROVIDER_ORDER)"
    unfolding set_ys by (auto intro!: inj_onI dest: indexOf_inj)
  then have d1: "distinct (map ?idx ?ys)"
    using \<open>distinct xs\<close> by (simp add: distinct_map inj_on_Un)
  have ord: "map ?idx PROVIDER_ORDER = [0, 1, 2, 3, 4, 5, 6, 7]"
    by (simp add: PROVIDER_ORDER_def)
  have s2: "sorted (map ?idx PROVIDER_ORDER)" and d2: "distinct (map ?idx PROVIDER_ORDER)"
    unfolding ord by simp_all
  have "set (map ?idx ?ys) = set (map ?idx PROVIDER_ORDER)" using set_ys by simp
  with s1 d1 s2 d2 have "map ?idx ?ys = map ?idx PROVIDER_ORDER"
    by (intro sorted_distinct_set_unique)
  with inj show ?thesis by (simp add: inj_on_map_eq_map)
qed

lemma set_uniqueInOrder [simp]: "set (uniqueInOrder xs) = set xs"
  by (simp add: uniqueInOrder_def)

lemma distinct_uniqueInOrder [simp]: "distinct (uniqueInOrder xs)"
  by (simp add: uniqueInOrder_def)

lemma orderedProviders_shape:
  assumes total: "\<And>a b. localeCompare rt a b \<le> 0 \<or> localeCompare rt b a \<le> 0"
    and trans: "\<And>a b c. localeCompare rt a b \<le> 0 \<Longrightarrow> localeCompare rt b c \<le> 0 \<Longrightarrow> localeCompare rt a c \<le> 0"
  shows "\<exists>extras. orderedProviders rt (groupFiles fs) sc = PROVIDER_ORDER @ extras
          \<and> distinct extras
          \<and> set extras = (fst ` set sc \<union> providerOfFile ` set fs) - set PROVIDER_ORDER
          \<and> sorted_wrt (\<lambda>a b. localeCompare rt a b \<le> 0) extras"
proof -
  let ?xs = "orderedProviders rt (groupFiles fs) sc"
  let ?extras = "filter (\<lambda>a. \<not> canon a) ?xs"
  have set_xs: "set ?xs = set PROVIDER_ORDER \<union> fst ` set sc \<union> providerOfFile ` set fs"
    by (simp add: orderedProviders_def groupFiles_keys Un_assoc)
  have dist: "distinct ?xs" by (simp add: orderedProviders_def)
  have sorted: "sorted_wrt (\<lambda>a b. sortProviders rt a b \<le> 0) ?xs"
    unfolding orderedProviders_def
  proof (rule sorted_wrt_sortBy)
    show "sortProviders rt a b \<le> 0 \<or> sortProviders rt b a \<le> 0" for a b
      using total by (rule sortProviders_total)
    show "sortProviders rt a c \<le> 0"
      if "sortProviders rt a b \<le> 0" "sortProviders rt b c \<le> 0" for a b c
      using trans that by (rule sortProviders_trans)
  qed
  have "filter canon ?xs = PROVIDER_ORDER"
    using sorted dist set_xs by (intro canonical_part_is_PROVIDER_ORDER) auto
  with sorted_split_canon [OF sorted] have 1: "?xs = PROVIDER_ORDER @ ?extras" by simp
  have 2: "distinct ?extras" using dist by simp
  have 3: "set ?extras = (fst ` set sc \<union> providerOfFile ` set fs) - set PROVIDER_ORDER"
    using set_xs by (auto simp: canon_def)
  have "sorted_wrt (\<lambda>a b. sortProviders rt a b \<le> 0) ?extras" using sorted by (rule sorted_wrt_filter)
  then have 4: "sorted_wrt (\<lambda>a b. localeCompare rt a b \<le> 0) ?extras"
    by (rule sorted_wrt_mono_rel [rotated]) (auto simp: sortProviders_le)
  from 1 2 3 4 show ?thesis by blast
qed

lemma filter_eq_singleton: "distinct xs \<Longrightarrow> x \<in> set xs \<Longrightarrow> filter (\<lambda>y. y = x) xs = [x]"
  by (induction xs) (auto simp: filter_empty_conv)

lemma orderedProviders_set:
  "set (orderedProviders rt (groupFiles fs) sc)
     = set PROVIDER_ORDER \<union> fst ` set sc \<union> providerOfFile ` set fs"
  by (simp add: orderedProviders_def groupFiles_keys Un_assoc)

lemma orderedProviders_distinct: "distinct (orderedProviders rt grouped sc)"
  by (simp add: orderedProviders_def)

lemma buildProviderHealth_entry:
  assumes "p \<in> set PROVIDER_ORDER \<union> fst ` set sc \<union> providerOfFile ` set fs"
  shows "filter (\<lambda>h. h_provider h = p) (buildProviderHealth rt nowMs fs sc)
           = [providerEntry rt nowMs (groupFiles fs) sc p]"
proof -
  let ?xs = "orderedProviders rt (groupFiles fs) sc"
  from assms have "p \<in> set ?xs" by (simp only: orderedProviders_set)
  with orderedProviders_distinct have "filter (\<lambda>y. y = p) ?xs = [p]" by (rule filter_eq_singleton)
  then show ?thesis by (simp add: buildProviderHealth_def Let_def filter_map comp_def)
qed

lemma positive_staticKeyCountOf:
  "positive (staticKeyCountOf sc p) \<longleftrightarrow> (\<exists>n. map_of sc p = Some n \<and> n > 0)"
  by (simp add: staticKeyCountOf_def getProperty_def split: option.splits)

lemma severity_Max:
  assumes "xs \<noteq> []" and "\<exists>f \<in> set xs. s = g f" and "\<forall>f \<in> set xs. g f \<le> (s :: nat)"
  shows "s = Max (g ` set xs)"
proof -
  from assms(2) have "s \<in> g ` set xs" by blast
  moreover from assms(3) have "\<And>y. y \<in> g ` set xs \<Longrightarrow> y \<le> s" by blast
  ultimately show ?thesis by (intro Max_eqI [symmetric]) simp_all
qed

text \<open>
  Claim C2. Every provider that is canonical, has a static key count or has a credential
  file grouped under it has exactly one entry in the provider health output. When
  credential files are grouped under the provider, the status of that entry is the level of
  one of those files and no file of the group has a level of higher severity: its severity
  is the maximum of the severities of the group under \<^const>\<open>FRESHNESS_SEVERITY\<close>. When no
  file is grouped under it, the status is \<^const>\<open>Configured\<close> if the static key counts
  give the provider a positive number and \<^const>\<open>Missing\<close> otherwise.
\<close>

theorem buildProviderHealth_status:
  assumes "p \<in> set PROVIDER_ORDER \<union> fst ` set staticCounts \<union> providerOfFile ` set oauthFiles"
  shows "\<exists>h. filter (\<lambda>h. h_provider h = p) (buildProviderHealth rt nowMs oauthFiles staticCounts) = [h]
       \<and> (filter (\<lambda>f. providerOfFile f = p) oauthFiles \<noteq> [] \<longrightarrow>
            (\<exists>f \<in> set (filter (\<lambda>f. providerOfFile f = p) oauthFiles).
               status h = level (evaluateOAuthFileFreshness rt f nowMs))
          \<and> (\<forall>f \<in> set (filter (\<lambda>f. providerOfFile f = p) oauthFiles).
               FRESHNESS_SEVERITY (level (evaluateOAuthFileFreshness rt f nowMs))
                 \<le> FRESHNESS_SEVERITY (status h))
          \<and> FRESHNESS_SEVERITY (status h)
              = Max ((\<lambda>f. FRESHNESS_SEVERITY (level (evaluateOAuthFileFreshness rt f nowMs)))
                       ` set (filter (\<lambda>f. providerOfFile f = p) oauthFiles)))
       \<and> (filter (\<lambda>f. providerOfFile f = p) oauthFiles = [] \<longrightarrow>
            status h = (if \<exists>n. map_of staticCounts p = Some n \<and> n > 0 then Configured else Missing))"
proof -
  let ?h = "providerEntry rt nowMs (groupFiles oauthFiles) staticCounts p"
  let ?fs = "filter (\<lambda>f. providerOfFile f = p) oauthFiles"
  have 1: "filter (\<lambda>h. h_provider h = p) (buildProviderHealth rt nowMs oauthFiles staticCounts) = [?h]"
    using assms by (rule buildProviderHealth_entry)
  have 2: "(\<exists>f \<in> set ?fs. status ?h = level (evaluateOAuthFileFreshness rt f nowMs))
          \<and> (\<forall>f \<in> set ?fs. FRESHNESS_SEVERITY (level (evaluateOAuthFileFreshness rt f nowMs))
                 \<le> FRESHNESS_SEVERITY (status ?h))
          \<and> FRESHNESS_SEVERITY (status ?h)
              = Max ((\<lambda>f. FRESHNESS_SEVERITY (level (evaluateOAuthFileFreshness rt f nowMs))) ` set ?fs)"
    if ne: "?fs \<noteq> []"
  proof -
    note s = providerEntry_status_files [OF ne, of rt nowMs staticCounts]
    from s have a: "\<exists>f \<in> set ?fs. FRESHNESS_SEVERITY (status ?h)
        = FRESHNESS_SEVERITY (level (evaluateOAuthFileFreshness rt f nowMs))" by auto
    from s have b: "\<forall>f \<in> set ?fs. FRESHNESS_SEVERITY (level (evaluateOAuthFileFreshness rt f nowMs))
        \<le> FRESHNESS_SEVERITY (status ?h)" by blast
    from ne a b have "FRESHNESS_SEVERITY (status ?h)
        = Max ((\<lambda>f. FRESHNESS_SEVERITY (level (evaluateOAuthFileFreshness rt f nowMs))) ` set ?fs)"
      by (rule severity_Max)
    with s show ?thesis by blast
  qed
  have 3: "status ?h = (if \<exists>n. map_of staticCounts p = Some n \<and> n > 0 then Configured else Missing)"
    if "?fs = []"
    using providerEntry_status_nofiles(1) [OF that, of rt nowMs staticCounts]
    by (simp only: positive_staticKeyCountOf)
  from 1 2 3 show ?thesis by blast
qed

lemma example_groups:
  "filter (\<lambda>f. providerOfFile f = ''claude'') exampleFiles = [claudeFile, anthropicFile]"
  "filter (\<lambda>f. providerOfFile f = ''qwen'') exampleFiles = []"
  "filter (\<lambda>f. providerOfFile f = ''proxy-access'') exampleFiles = []"
  by (simp_all add: exampleFiles_def example_providerOfFile)

lemma example_groups2:
  "filter (\<lambda>f. providerOfFile f = ''mistral'') exampleFiles = [mistralFile]"
  by (simp_all add: exampleFiles_def example_providerOfFile)

text \<open>
  C2 on the example: the two files of \<^verbatim>\<open>claude\<close> are \<^const>\<open>Warning\<close> and \<^const>\<open>Expired\<close>
  and the rollup is \<^const>\<open>Expired\<close>; \<^verbatim>\<open>mistral\<close>, which is not a canonical provider,
  has one file that does not parse; \<^verbatim>\<open>qwen\<close> has neither files nor keys;
  \<^verbatim>\<open>proxy-access\<close> has two static keys.
\<close>

theorem buildProviderHealth_status_witness:
  "(\<exists>h. filter (\<lambda>h. h_provider h = ''claude'')
           (buildProviderHealth exampleRuntime exampleNow exampleFiles exampleStaticCounts) = [h]
       \<and> status h = Expired)
 \<and> (\<exists>h. filter (\<lambda>h. h_provider h = ''mistral'')
           (buildProviderHealth exampleRuntime exampleNow exampleFiles exampleStaticCounts) = [h]
       \<and> status h = Error)
 \<and> (\<exists>h. filter (\<lambda>h. h_provider h = ''qwen'')
           (buildProviderHealth exampleRuntime exampleNow exampleFiles exampleStaticCounts) = [h]
       \<and> status h = Missing)
 \<and> (\<exists>h. filter (\<lambda>h. h_provider h = ''proxy-access'')
           (buildProviderHealth exampleRuntime exampleNow exampleFiles exampleStaticCounts) = [h]
       \<and> status h = Configured)"
proof -
  let ?out = "buildProviderHealth exampleRuntime exampleNow exampleFiles exampleStaticCounts"
  let ?dom = "set PROVIDER_ORDER \<union> fst ` set exampleStaticCounts \<union> providerOfFile ` set exampleFiles"
  have m: "''claude'' \<in> ?dom" "''qwen'' \<in> ?dom" "''proxy-access'' \<in> ?dom"
    by (simp_all add: PROVIDER_ORDER_def)
  have m': "''mistral'' \<in> ?dom" by (simp add: exampleFiles_def example_providerOfFile)
  from buildProviderHealth_status [OF m(1), of exampleRuntime exampleNow]
  obtain h1 where 1: "filter (\<lambda>h. h_provider h = ''claude'') ?out = [h1]"
    and "FRESHNESS_SEVERITY Expired \<le> FRESHNESS_SEVERITY (status h1)"
    and "status h1 = Warning \<or> status h1 = Expired"
    by (auto simp: example_groups example_levels)
  then have s1: "status h1 = Expired" by auto
  from buildProviderHealth_status [OF m', of exampleRuntime exampleNow]
  obtain h2 where 2: "filter (\<lambda>h. h_provider h = ''mistral'') ?out = [h2]" and s2: "status h2 = Error"
    by (auto simp: example_groups2 example_levels)
  from buildProviderHealth_status [OF m(2), of exampleRuntime exampleNow]
  obtain h3 where 3: "filter (\<lambda>h. h_provider h = ''qwen'') ?out = [h3]" and s3: "status h3 = Missing"
    by (auto simp: example_groups exampleStaticCounts_def)
  from buildProviderHealth_status [OF m(3), of exampleRuntime exampleNow]
  obtain h4 where 4: "filter (\<lambda>h. h_provider h = ''proxy-access'') ?out = [h4]"
    and s4: "status h4 = Configured"
    by (auto simp: example_groups exampleStaticCounts_def)
  from 1 s1 2 s2 3 s3 4 s4 show ?thesis by blast
qed



section \<open>Service state: the running flag\<close>

lemma deriveStateFromStatus_nonempty: "deriveStateFromStatus s \<noteq> []"
  by (simp add: deriveStateFromStatus_def Let_def)

text \<open>
  Claim C7, as the code has it. In a record of the compose normalizer, in the
  \<^verbatim>\<open>not-created\<close> placeholder, and in a record of the direct-container normalizer made
  without inspect data, \<open>running\<close> is true if and only if the state field equals
  \<^verbatim>\<open>running\<close>. When the direct-container normalizer has inspect data, \<open>running\<close> is the
  \<^verbatim>\<open>Running\<close> flag of the inspect call, whatever the state field says.
\<close>

theorem running_flag_of_normalizers:
  "(s_running (normalizeComposeServiceState cfg row)
      \<longleftrightarrow> s_state (normalizeComposeServiceState cfg row) = ''running'')
 \<and> (s_running (normalizeContainerState cfg row None)
      \<longleftrightarrow> s_state (normalizeContainerState cfg row None) = ''running'')
 \<and> s_running (normalizeContainerState cfg row (Some i)) = i_running i
 \<and> (s_running (notCreated cfg) \<longleftrightarrow> s_state (notCreated cfg) = ''running'')"
  by (simp add: normalizeComposeServiceState_def normalizeContainerState_def notCreated_def Let_def
      orElse_def deriveStateFromStatus_nonempty)

text \<open>
  The claim C7 as stated fails for the direct-container normalizer: for a paused container
  \<^verbatim>\<open>docker inspect\<close> reports the status \<^verbatim>\<open>paused\<close> with \<^verbatim>\<open>Running\<close> true, and the
  record has \<open>running\<close> true and the state \<^verbatim>\<open>paused\<close>.
\<close>

theorem running_flag_counterexample:
  "s_running (normalizeContainerState exampleConfig
      (exampleRow\<lparr>Status := ''Up 2 hours (Paused)''\<rparr>)
      (Some \<lparr>i_status = ''paused'', i_running = True, i_exitCode = Some 0,
             i_startedAt = [], i_finishedAt = []\<rparr>))
 \<and> s_state (normalizeContainerState exampleConfig
      (exampleRow\<lparr>Status := ''Up 2 hours (Paused)''\<rparr>)
      (Some \<lparr>i_status = ''paused'', i_running = True, i_exitCode = Some 0,
             i_startedAt = [], i_finishedAt = []\<rparr>)) = ''paused''"
  by (simp add: normalizeContainerState_def Let_def orElse_def)

section \<open>Service state: automatic backend resolution\<close>

lemma inspectContainerState_result:
  "t \<noteq> [] \<Longrightarrow> fst (inspectContainerState env n t) = fst (inspectContainerState env n [])"
  by (simp add: inspectContainerState_def runCommand_def Let_def split: option.splits)

lemma getContainerServiceSummary_result:
  "fst (getContainerServiceSummary cfg env tr) = fst (getContainerServiceSummary cfg env tr')"
  by (simp add: getContainerServiceSummary_def runCommand_def Let_def split_def
      inspectContainerState_result split: list.splits)

lemma getContainerServiceSummary_ok_no_error:
  "dockerAvailable (fst (getContainerServiceSummary cfg env tr))
     \<Longrightarrow> commandError (fst (getContainerServiceSummary cfg env tr)) = []"
  by (simp add: getContainerServiceSummary_def runCommand_def Let_def split_def split: list.splits if_splits)

text \<open>
  Claim C3, as the code has it. In automatic backend mode, whenever the compose call fails
  (\<open>dockerAvailable\<close> false) and the direct single-instance call succeeds, the summary the
  resolver returns is the summary of the direct call with its \<open>commandError\<close> replaced by
  the error text of the compose call; its \<open>dockerAvailable\<close> is true.
\<close>

theorem getServiceSummary_fallback:
  assumes "DOCKER_MODE cfg \<noteq> ''compose''" and "DOCKER_MODE cfg \<noteq> ''container''"
    and "\<not> dockerAvailable (fst (getComposeServiceSummary cfg env tr))"
    and "dockerAvailable (fst (getContainerServiceSummary cfg env tr))"
  shows "fst (getServiceSummary cfg env tr) =
           (fst (getContainerServiceSummary cfg env tr))
             \<lparr>commandError := commandError (fst (getComposeServiceSummary cfg env tr))\<rparr>
       \<and> dockerAvailable (fst (getServiceSummary cfg env tr))"
proof -
  obtain compose tr1 where c: "getComposeServiceSummary cfg env tr = (compose, tr1)" by fastforce
  obtain container tr2 where d: "getContainerServiceSummary cfg env tr1 = (container, tr2)" by fastforce
  have e: "fst (getContainerServiceSummary cfg env tr) = container"
    using getContainerServiceSummary_result [of cfg env tr tr1] d by simp
  with assms(4) have av: "dockerAvailable container" by simp
  have ne: "commandError container = []"
    using getContainerServiceSummary_ok_no_error [of cfg env tr1] d av by simp
  from assms(3) c have nc: "\<not> dockerAvailable compose" by simp
  have "fst (getServiceSummary cfg env tr) = container\<lparr>commandError := commandError compose\<rparr>"
    using assms(1,2) c d nc av ne by (simp add: getServiceSummary_def)
  then show ?thesis using e c av by simp
qed

lemma example_compose_fails:
  "\<not> dockerAvailable (fst (getComposeServiceSummary exampleConfig exampleEnv []))"
  "commandError (fst (getComposeServiceSummary exampleConfig exampleEnv []))
     = ''no configuration file provided: not found''"
  by (simp_all add: getComposeServiceSummary_def runCommand_def exampleEnv_def exampleConfig_def
      Let_def orElse_def trim_def isSpace_def)

lemma example_container_works:
  "dockerAvailable (fst (getContainerServiceSummary exampleConfig exampleEnv []))"
  "commandError (fst (getContainerServiceSummary exampleConfig exampleEnv [])) = []"
  "backend (fst (getContainerServiceSummary exampleConfig exampleEnv [])) = ''container''"
  "overallState (fst (getContainerServiceSummary exampleConfig exampleEnv [])) = ''running''"
  by (simp_all add: getContainerServiceSummary_def inspectContainerState_def runCommand_def
      normalizeContainerState_def exampleEnv_def exampleConfig_def exampleRow_def
      Let_def orElse_def trim_def isSpace_def split_def)

text \<open>C3 on the example host, where only \<^verbatim>\<open>docker compose\<close> fails.\<close>

theorem getServiceSummary_fallback_witness:
  "fst (getServiceSummary exampleConfig exampleEnv []) =
     (fst (getContainerServiceSummary exampleConfig exampleEnv []))
       \<lparr>commandError := ''no configuration file provided: not found''\<rparr>
 \<and> dockerAvailable (fst (getServiceSummary exampleConfig exampleEnv []))"
proof -
  have m: "DOCKER_MODE exampleConfig \<noteq> ''compose''" "DOCKER_MODE exampleConfig \<noteq> ''container''"
    by (simp_all add: exampleConfig_def)
  from getServiceSummary_fallback [OF m example_compose_fails(1) example_container_works(1)]
  show ?thesis by (simp add: example_compose_fails(2) example_container_works(1))
qed

text \<open>
  The claim C3 as stated fails on the example host: the direct call alone reports an empty
  \<open>commandError\<close>, the resolver reports the error of the compose call, and the two
  summaries differ.
\<close>

theorem getServiceSummary_fallback_counterexample:
  "\<not> dockerAvailable (fst (getComposeServiceSummary exampleConfig exampleEnv []))
 \<and> dockerAvailable (fst (getContainerServiceSummary exampleConfig exampleEnv []))
 \<and> commandError (fst (getContainerServiceSummary exampleConfig exampleEnv [])) = []
 \<and> commandError (fst (getServiceSummary exampleConfig exampleEnv []))
      = ''no configuration file provided: not found''
 \<and> fst (getServiceSummary exampleConfig exampleEnv [])
      \<noteq> fst (getContainerServiceSummary exampleConfig exampleEnv [])"
proof -
  have m: "DOCKER_MODE exampleConfig \<noteq> ''compose''" "DOCKER_MODE exampleConfig \<noteq> ''container''"
    by (simp_all add: exampleConfig_def)
  obtain compose tr1 where c: "getComposeServiceSummary exampleConfig exampleEnv [] = (compose, tr1)"
    by fastforce
  obtain container tr2 where d: "getContainerServiceSummary exampleConfig exampleEnv tr1 = (container, tr2)"
    by fastforce
  have e: "fst (getContainerServiceSummary exampleConfig exampleEnv []) = container"
    using getContainerServiceSummary_result [of exampleConfig exampleEnv "[]" tr1] d by simp
  have 1: "\<not> dockerAvailable compose" "commandError compose = ''no configuration file provided: not found''"
    using example_compose_fails c by simp_all
  have 2: "dockerAvailable container" "commandError container = []"
    using example_container_works e by simp_all
  have 3: "fst (getServiceSummary exampleConfig exampleEnv [])
      = container\<lparr>commandError := ''no configuration file provided: not found''\<rparr>"
    using m c d 1 2 by (simp add: getServiceSummary_def)
  then have 4: "commandError (fst (getServiceSummary exampleConfig exampleEnv []))
      = ''no configuration file provided: not found''" by simp
  with 2(2) have 5: "fst (getServiceSummary exampleConfig exampleEnv []) \<noteq> container" by auto
  from 1 2 4 5 show ?thesis unfolding e using c by simp
qed

section \<open>Start, stop, restart: unsupported actions\<close>

lemma getProperty_actions:
  "getProperty (composeActions cfg) ''__proto__'' = InheritedObject"
  "getProperty (directActions cfg) ''__proto__'' = InheritedObject"
  "getProperty (composeActions cfg) ''constructor'' = InheritedFunction"
  "getProperty (directActions cfg) ''constructor'' = InheritedFunction"
  by (simp_all add: getProperty_def composeActions_def directActions_def objectPrototypeFunctions_def)

lemma runActionWith_proto:
  "getProperty actions action = InheritedObject \<Longrightarrow>
     runActionWith actions b env action tr
       = (Inr (actionResult b (run env ''docker'' [])), tr @ [(''docker'', [])])"
  by (simp add: runActionWith_def runCommandValue_def runCommand_def)

lemma runActionWith_function:
  "getProperty actions action = InheritedFunction \<Longrightarrow>
     runActionWith actions b env action tr = (Inl ERR_INVALID_ARG_TYPE, tr)"
  by (simp add: runActionWith_def runCommandValue_def)

lemma runActionWith_undefined:
  "getProperty actions action = Undefined \<Longrightarrow>
     runActionWith actions b env action tr = (Inr (unsupportedAction b), tr)"
  by (simp add: runActionWith_def)

text \<open>An action name that is neither a key of the table nor a property of Object.prototype.\<close>

lemma getProperty_actions_undefined:
  assumes "action \<notin> {''start'', ''stop'', ''restart''}"
    and "action \<noteq> ''__proto__''" and "action \<notin> set objectPrototypeFunctions"
  shows "getProperty (composeActions cfg) action = Undefined"
    and "getProperty (directActions cfg) action = Undefined"
  using assms by (simp_all add: getProperty_def composeActions_def directActions_def)

lemma runContainerAction_unsupported:
  assumes "action \<notin> {''start'', ''stop'', ''restart''}"
    and "action \<noteq> ''__proto__''" and "action \<notin> set objectPrototypeFunctions"
  shows "\<exists>r. runContainerAction cfg env action tr = (Inr r, tr)
            \<and> \<not> ok r \<and> a_error r = Some ''unsupported action''"
  using getProperty_actions_undefined [OF assms, of cfg]
  by (simp add: runContainerAction_def runComposeAction_def runDirectContainerAction_def
      runActionWith_undefined unsupportedAction_def)

text \<open>
  Claim C8 says that every action name outside \<^verbatim>\<open>start\<close>, \<^verbatim>\<open>stop\<close>, \<^verbatim>\<open>restart\<close> is
  answered with the failure \<^verbatim>\<open>unsupported action\<close> and that no subprocess is started. The
  code does so for every name that is not a property of \<^verbatim>\<open>Object.prototype\<close>
  (\<open>runContainerAction_unsupported\<close>). For the action \<^verbatim>\<open>__proto__\<close> the table lookup
  yields an object, the guard \<^verbatim>\<open>if (!args)\<close> lets it pass, and \<^verbatim>\<open>docker\<close> is spawned
  with no arguments, in every backend mode; the result carries no error and is \<open>ok\<close> when
  that child exits with 0. For \<^verbatim>\<open>constructor\<close> the lookup yields a function and the
  spawn throws.
\<close>

theorem runContainerAction_proto_spawns:
  "(''docker'', []) \<in> set (snd (runContainerAction cfg env ''__proto__'' []))
 \<and> (case fst (runContainerAction cfg env ''__proto__'' []) of
       Inl e \<Rightarrow> False
     | Inr r \<Rightarrow> a_error r = None \<and> ok r = (code (run env ''docker'' []) = 0))
 \<and> runContainerAction cfg env ''constructor'' [] = (Inl ERR_INVALID_ARG_TYPE, [])"
  by (simp add: runContainerAction_def runComposeAction_def runDirectContainerAction_def
      runActionWith_proto runActionWith_function getProperty_actions actionResult_def)

section \<open>Log stream: lines are never split\<close>

lemma splitLines_nonempty [simp]: "splitLines s \<noteq> []"
  by (induction s rule: splitLines.induct) (auto simp: consHead_def split: list.splits)

lemma splitLines_LF: "splitLines (LF # s) = [] # splitLines s"
  by (cases s) simp_all

lemma splitLines_single: "splitLines s = [p] \<Longrightarrow> p = s"
proof (induction s arbitrary: p rule: splitLines.induct)
  case 1
  then show ?case by simp
next
  case (2 c)
  then show ?case by (simp split: if_splits)
next
  case (3 c d cs)
  from "3.prems" have c: "c \<noteq> LF" "\<not> (c = CR \<and> d = LF)" by (auto split: if_splits)
  with "3.prems" have "consHead c (splitLines (d # cs)) = [p]" by simp
  then obtain q where q: "splitLines (d # cs) = [q]" "p = c # q"
    by (auto simp: consHead_def split: list.splits)
  with "3.IH"(3) [of q] c show ?case by auto
qed

lemma consHead_append: "xs \<noteq> [] \<Longrightarrow> consHead c (xs @ ys) = consHead c xs @ ys"
  by (cases xs) (simp_all add: consHead_def)

lemma splitLines_append:
  "splitLines (a @ b) = butlast (splitLines a) @ splitLines (last (splitLines a) @ b)"
proof (induction a rule: splitLines.induct)
  case 1
  then show ?case by simp
next
  case (2 c)
  then show ?case by (simp add: splitLines_LF)
next
  case (3 c d cs)
  show ?case
  proof (cases "c = LF")
    case True
    with "3.IH"(1) show ?thesis by simp
  next
    case nlf: False
    show ?thesis
    proof (cases "c = CR \<and> d = LF")
      case True
      with nlf "3.IH"(2) show ?thesis by simp
    next
      case False
      with nlf "3.IH"(3)
      have IH: "splitLines ((d # cs) @ b)
          = butlast (splitLines (d # cs)) @ splitLines (last (splitLines (d # cs)) @ b)"
        by simp
      from nlf False have L: "splitLines ((c # d # cs) @ b) = consHead c (splitLines ((d # cs) @ b))"
        by auto
      from nlf False have A: "splitLines (c # d # cs) = consHead c (splitLines (d # cs))" by auto
      obtain p ps where S: "splitLines (d # cs) = p # ps"
        using splitLines_nonempty [of "d # cs"] by (cases "splitLines (d # cs)") auto
      show ?thesis
      proof (cases ps)
        case Nil
        with S have p: "p = d # cs" using splitLines_single by blast
        from S Nil A have "splitLines (c # d # cs) = [c # p]" by (simp add: consHead_def)
        then show ?thesis using p by simp
      next
        case (Cons q qs)
        with S have "butlast (splitLines (d # cs)) \<noteq> []" by simp
        then have "consHead c (splitLines ((d # cs) @ b))
            = consHead c (butlast (splitLines (d # cs))) @ splitLines (last (splitLines (d # cs)) @ b)"
          unfolding IH by (rule consHead_append)
        moreover have "butlast (splitLines (c # d # cs)) = consHead c (butlast (splitLines (d # cs)))"
          unfolding A using S Cons by (simp add: consHead_def)
        moreover have "last (splitLines (c # d # cs)) = last (splitLines (d # cs))"
          unfolding A using S Cons by (simp add: consHead_def)
        ultimately show ?thesis using L by simp
      qed
    qed
  qed
qed

text \<open>Writing the complete lines of one chunk, while the stream is open.\<close>

lemma foldl_writeLine:
  "\<not> ended s \<Longrightarrow>
     (let s' = foldl (\<lambda>st line. if line = [] then st else writeLine st line kind) s ls in
      sent s' = sent s @ map (Data kind) (filter (\<lambda>l. l \<noteq> []) ls)
      \<and> buffer s' = buffer s \<and> ended s' = ended s \<and> child s' = child s
      \<and> heartbeat s' = heartbeat s \<and> killed s' = killed s)"
proof (induction ls arbitrary: s)
  case Nil
  then show ?case by simp
next
  case (Cons l ls)
  show ?case
  proof (cases "l = []")
    case True
    with Cons show ?thesis by simp
  next
    case False
    let ?s1 = "writeLine s l kind"
    have s1: "\<not> ended ?s1" "sent ?s1 = sent s @ [Data kind l]" "buffer ?s1 = buffer s"
      "child ?s1 = child s" "heartbeat ?s1 = heartbeat s" "killed ?s1 = killed s" "ended ?s1 = ended s"
      using Cons.prems by (simp_all add: writeLine_def resWrite_def)
    from Cons.IH [OF s1(1)] False s1 show ?thesis by (simp add: Let_def)
  qed
qed

lemma flushChunk_open:
  assumes "\<not> ended s"
  shows "sent (flushChunk s chunk kind)
           = sent s @ map (Data kind) (filter (\<lambda>l. l \<noteq> []) (butlast (splitLines (buffer s @ chunk))))"
    and "buffer (flushChunk s chunk kind) = last (splitLines (buffer s @ chunk))"
    and "\<not> ended (flushChunk s chunk kind)"
proof -
  let ?parts = "splitLines (buffer s @ chunk)"
  let ?s0 = "s\<lparr>buffer := last ?parts\<rparr>"
  have o: "\<not> ended ?s0" using assms by simp
  from foldl_writeLine [OF o, of kind "butlast ?parts"]
  show "sent (flushChunk s chunk kind)
           = sent s @ map (Data kind) (filter (\<lambda>l. l \<noteq> []) (butlast (splitLines (buffer s @ chunk))))"
    and "buffer (flushChunk s chunk kind) = last (splitLines (buffer s @ chunk))"
    and "\<not> ended (flushChunk s chunk kind)"
    using assms by (simp_all add: flushChunk_def Let_def)
qed

lemma chunkEvent_step: "streamStep s (chunkEvent (p, c)) = flushChunk s c (pipeKind p)"
  by (cases p) simp_all

lemma feed_Nil [simp]: "feed s [] = s"
  by (simp add: feed_def)

lemma feed_Cons: "feed s ((p, c) # chunks) = feed (flushChunk s c (pipeKind p)) chunks"
  by (simp add: feed_def chunkEvent_step)

lemma feed_append: "feed s (xs @ ys) = feed (feed s xs) ys"
  by (simp add: feed_def)

lemma splitLines_last: "splitLines (last (splitLines a)) = [last (splitLines a)]"
proof -
  have "splitLines a = butlast (splitLines a) @ splitLines (last (splitLines a))"
    using splitLines_append [of a "[]"] by simp
  moreover have "splitLines a = butlast (splitLines a) @ [last (splitLines a)]" by simp
  ultimately show ?thesis by (metis same_append_eq)
qed

text \<open>Chunks of one pipe, from an open state whose buffer holds no line boundary.\<close>

lemma feed_one_pipe:
  assumes "\<not> ended s" and "splitLines (buffer s) = [buffer s]"
  shows "sent (feed s (map (Pair p) cs))
           = sent s @ map (Data (pipeKind p))
                        (filter (\<lambda>l. l \<noteq> []) (butlast (splitLines (buffer s @ concat cs))))
       \<and> buffer (feed s (map (Pair p) cs)) = last (splitLines (buffer s @ concat cs))
       \<and> \<not> ended (feed s (map (Pair p) cs))"
  using assms
proof (induction cs arbitrary: s)
  case Nil
  then show ?case by simp
next
  case (Cons c cs)
  let ?s1 = "flushChunk s c (pipeKind p)"
  note f = flushChunk_open [OF Cons.prems(1), of c "pipeKind p"]
  have b: "splitLines (buffer ?s1) = [buffer ?s1]" unfolding f(2) by (rule splitLines_last)
  have split: "splitLines ((buffer s @ c) @ concat cs)
      = butlast (splitLines (buffer s @ c)) @ splitLines (last (splitLines (buffer s @ c)) @ concat cs)"
    by (rule splitLines_append)
  from Cons.IH [OF f(3) b] show ?case
    unfolding feed_Cons list.map f(1) f(2) using split
    by (simp add: butlast_append)
qed

lemma feed_runs:
  assumes "\<forall>run \<in> set (butlast runs). last (splitLines (concat (snd run))) = []"
  shows "sent (feed (streamLogs cfg name) (concat (map (\<lambda>run. map (Pair (fst run)) (snd run)) runs)))
           = Comment ''connected''
             # concat (map (\<lambda>run. map (Data (pipeKind (fst run)))
                                   (filter (\<lambda>l. l \<noteq> []) (butlast (splitLines (concat (snd run))))))
                          runs)
       \<and> buffer (feed (streamLogs cfg name) (concat (map (\<lambda>run. map (Pair (fst run)) (snd run)) runs)))
           = (if runs = [] then [] else last (splitLines (concat (snd (last runs)))))
       \<and> \<not> ended (feed (streamLogs cfg name) (concat (map (\<lambda>run. map (Pair (fst run)) (snd run)) runs)))"
  using assms
proof (induction runs rule: rev_induct)
  case Nil
  show ?case by (simp add: streamLogs_def)
next
  case (snoc run runs)
  let ?S = "feed (streamLogs cfg name) (concat (map (\<lambda>run. map (Pair (fst run)) (snd run)) runs))"
  from snoc.prems have all: "\<forall>run \<in> set runs. last (splitLines (concat (snd run))) = []" by simp
  then have "\<forall>run \<in> set (butlast runs). last (splitLines (concat (snd run))) = []"
    by (meson in_set_butlastD)
  from snoc.IH [OF this] have S: "sent ?S = Comment ''connected''
             # concat (map (\<lambda>run. map (Data (pipeKind (fst run)))
                                   (filter (\<lambda>l. l \<noteq> []) (butlast (splitLines (concat (snd run))))))
                          runs)"
    "buffer ?S = (if runs = [] then [] else last (splitLines (concat (snd (last runs)))))"
    "\<not> ended ?S" by simp_all
  have b: "buffer ?S = []" using S(2) all by (cases "runs = []") simp_all
  then have b': "splitLines (buffer ?S) = [buffer ?S]" by simp
  have step: "feed (streamLogs cfg name)
        (concat (map (\<lambda>run. map (Pair (fst run)) (snd run)) (runs @ [run])))
      = feed ?S (map (Pair (fst run)) (snd run))"
    by (simp add: feed_append)
  from feed_one_pipe [OF S(3) b', of "fst run" "snd run"] show ?case
    unfolding step by (simp add: S(1) b)
qed

lemma onClose_open:
  "\<not> ended s \<Longrightarrow>
     sent (onClose s exitCode)
       = sent s @ (if trim (buffer s) \<noteq> [] then [Data KLog (trim (buffer s))] else [])
           @ [Data KStatus (''log stream ended (exit code ''
                @ (case exitCode of Some c \<Rightarrow> showInt c | None \<Rightarrow> ''unknown'') @ '')'')]
     \<and> ended (onClose s exitCode)"
  by (simp add: onClose_def writeLine_def resWrite_def Let_def)

text \<open>
  Claim C6, as the code has it. The output of the child arrives as runs of chunks, each run
  on one pipe, and every run but the last ends at a line boundary, so that a chunk of one
  pipe never arrives while the beginning of a line of the other is buffered. Then, however
  each run is cut into chunks, the frames sent are, run after run, the non-empty lines of
  the run's text that have been terminated by a line boundary, each with the kind of its
  pipe, and the buffer holds the text after the last boundary: a line is emitted only once
  its boundary has been seen, and never in pieces. When the child closes, the buffered text
  is emitted as a last line if it is not blank, with the white space around it removed; then
  a status event carrying the exit code (or the word \<^verbatim>\<open>unknown\<close> when there is none) is
  emitted, and the response is ended.
\<close>

theorem log_framing:
  assumes "\<forall>run \<in> set (butlast runs). last (splitLines (concat (snd run))) = []"
    and "chunks = concat (map (\<lambda>run. map (Pair (fst run)) (snd run)) runs)"
  shows "sent (feed (streamLogs cfg name) chunks)
           = Comment ''connected''
             # concat (map (\<lambda>run. map (Data (pipeKind (fst run)))
                                   (filter (\<lambda>l. l \<noteq> []) (butlast (splitLines (concat (snd run))))))
                          runs)
       \<and> buffer (feed (streamLogs cfg name) chunks)
           = (if runs = [] then [] else last (splitLines (concat (snd (last runs)))))
       \<and> sent (onClose (feed (streamLogs cfg name) chunks) exitCode)
           = sent (feed (streamLogs cfg name) chunks)
             @ (if trim (buffer (feed (streamLogs cfg name) chunks)) \<noteq> []
                then [Data KLog (trim (buffer (feed (streamLogs cfg name) chunks)))] else [])
             @ [Data KStatus (''log stream ended (exit code ''
                  @ (case exitCode of Some c \<Rightarrow> showInt c | None \<Rightarrow> ''unknown'') @ '')'')]
       \<and> ended (onClose (feed (streamLogs cfg name) chunks) exitCode)"
proof -
  note f = feed_runs [OF assms(1), of cfg name, folded assms(2)]
  then have o: "\<not> ended (feed (streamLogs cfg name) chunks)" by simp
  from f onClose_open [OF o, of exitCode] show ?thesis by simp
qed

text \<open>
  C6 on the example of the claim: \<^verbatim>\<open>abc\<close>, a line feed and \<^verbatim>\<open>de\<close> emit \<^verbatim>\<open>abc\<close>, and
  \<^verbatim>\<open>f\<close> with a line feed after them emits \<^verbatim>\<open>def\<close>. In the third input a line of standard
  error comes first and the child closes with \<^verbatim>\<open>x\<close> between blanks in the buffer.
\<close>

theorem log_framing_witness:
  "sent (feed (streamLogs exampleConfig ''api4llm'') [(OutPipe, ''abc'' @ [LF] @ ''de'')])
     = [Comment ''connected'', Data KLog ''abc'']
 \<and> sent (feed (streamLogs exampleConfig ''api4llm'')
       [(OutPipe, ''abc'' @ [LF] @ ''de''), (OutPipe, ''f'' @ [LF])])
     = [Comment ''connected'', Data KLog ''abc'', Data KLog ''def'']
 \<and> sent (onClose (feed (streamLogs exampleConfig ''api4llm'')
       [(ErrPipe, ''warn'' @ [LF]), (OutPipe, ''abc'' @ [LF] @ ''de''), (OutPipe, ''f'' @ [CR, LF] @ '' x '')])
       (Some 1))
     = [Comment ''connected'', Data KError ''warn'', Data KLog ''abc'', Data KLog ''def'',
        Data KLog ''x'', Data KStatus ''log stream ended (exit code 1)'']"
proof -
  note ev = LF_def CR_def consHead_def
  have 1: "sent (feed (streamLogs exampleConfig ''api4llm'') [(OutPipe, ''abc'' @ [LF] @ ''de'')])
     = [Comment ''connected'', Data KLog ''abc'']"
    using log_framing [of "[(OutPipe, [''abc'' @ [LF] @ ''de''])]" "[(OutPipe, ''abc'' @ [LF] @ ''de'')]"
        exampleConfig "''api4llm''" None]
    by (simp add: ev)
  have 2: "sent (feed (streamLogs exampleConfig ''api4llm'')
       [(OutPipe, ''abc'' @ [LF] @ ''de''), (OutPipe, ''f'' @ [LF])])
     = [Comment ''connected'', Data KLog ''abc'', Data KLog ''def'']"
    using log_framing [of "[(OutPipe, [''abc'' @ [LF] @ ''de'', ''f'' @ [LF]])]"
        "[(OutPipe, ''abc'' @ [LF] @ ''de''), (OutPipe, ''f'' @ [LF])]"
        exampleConfig "''api4llm''" None]
    by (simp add: ev)
  have 3: "sent (onClose (feed (streamLogs exampleConfig ''api4llm'')
       [(ErrPipe, ''warn'' @ [LF]), (OutPipe, ''abc'' @ [LF] @ ''de''), (OutPipe, ''f'' @ [CR, LF] @ '' x '')])
       (Some 1))
     = [Comment ''connected'', Data KError ''warn'', Data KLog ''abc'', Data KLog ''def'',
        Data KLog ''x'', Data KStatus ''log stream ended (exit code 1)'']"
    using log_framing [of "[(ErrPipe, [''warn'' @ [LF]]),
                           (OutPipe, [''abc'' @ [LF] @ ''de'', ''f'' @ [CR, LF] @ '' x ''])]"
        "[(ErrPipe, ''warn'' @ [LF]), (OutPipe, ''abc'' @ [LF] @ ''de''), (OutPipe, ''f'' @ [CR, LF] @ '' x '')]"
        exampleConfig "''api4llm''" "Some 1"]
    by (simp add: ev trim_def isSpace_def showInt_def showNat.simps digitChar_def)
  from 1 2 3 show ?thesis by blast
qed

text \<open>
  The claim C6 as stated fails where it says that any trailing unterminated text is flushed
  as a final line: a buffer of two blanks is not emitted at all, and the buffer
  \<^verbatim>\<open>  de\<close> is emitted as \<^verbatim>\<open>de\<close>.
\<close>

theorem log_flush_counterexample:
  "buffer (feed (streamLogs exampleConfig ''api4llm'') [(OutPipe, ''abc'' @ [LF] @ ''  '')]) = ''  ''
 \<and> sent (onClose (feed (streamLogs exampleConfig ''api4llm'') [(OutPipe, ''abc'' @ [LF] @ ''  '')]) (Some 0))
     = [Comment ''connected'', Data KLog ''abc'', Data KStatus ''log stream ended (exit code 0)'']
 \<and> buffer (feed (streamLogs exampleConfig ''api4llm'') [(OutPipe, ''abc'' @ [LF] @ ''  de'')]) = ''  de''
 \<and> sent (onClose (feed (streamLogs exampleConfig ''api4llm'') [(OutPipe, ''abc'' @ [LF] @ ''  de'')]) None)
     = [Comment ''connected'', Data KLog ''abc'', Data KLog ''de'',
        Data KStatus ''log stream ended (exit code unknown)'']"
  by (simp add: feed_def flushChunk_def onClose_def writeLine_def resWrite_def streamLogs_def Let_def
      LF_def CR_def consHead_def trim_def isSpace_def showInt_def showNat.simps digitChar_def)

text \<open>
  The handlers of the two pipes append to one buffer. When a chunk of one pipe arrives
  while the buffer holds the beginning of a line of the other, the two texts are joined:
  standard output delivers \<^verbatim>\<open>abc\<close>, a line feed and \<^verbatim>\<open>de\<close>, standard error delivers
  \<^verbatim>\<open>ERR\<close> and a line feed, standard output delivers \<^verbatim>\<open>f\<close> and a line feed, and the
  frames sent are \<^verbatim>\<open>abc\<close>, \<^verbatim>\<open>deERR\<close> as an error and \<^verbatim>\<open>f\<close>.
\<close>

lemma shared_buffer_example:
  "sent (feed (streamLogs exampleConfig ''api4llm'')
       [(OutPipe, ''abc'' @ [LF] @ ''de''), (ErrPipe, ''ERR'' @ [LF]), (OutPipe, ''f'' @ [LF])])
     = [Comment ''connected'', Data KLog ''abc'', Data KError ''deERR'', Data KLog ''f'']"
  by (simp add: feed_def flushChunk_def writeLine_def resWrite_def streamLogs_def Let_def
      LF_def CR_def consHead_def)

section \<open>Model catalogue: one entry for each key\<close>

lemma collect_keys_distinct:
  assumes "distinct (map fst es)"
  shows "distinct (map fst (collect es c))"
proof (cases "keyOf c")
  case None
  with assms show ?thesis by (simp add: collect_def)
next
  case (Some key)
  show ?thesis
  proof (cases "map_of es key")
    case None
    then have "key \<notin> fst ` set es" by (simp add: map_of_eq_None_iff)
    with assms Some None show ?thesis by (simp add: collect_def)
  next
    case (Some existing)
    with assms \<open>keyOf c = Some key\<close> show ?thesis by (simp add: collect_def distinct_update)
  qed
qed

lemma foldl_collect_distinct:
  "distinct (map fst es) \<Longrightarrow> distinct (map fst (foldl collect es cs))"
  by (induction cs arbitrary: es) (simp_all add: collect_keys_distinct)

lemma map_of_collect:
  "map_of (collect es c) k =
     (if keyOf c = Some k
      then Some (case map_of es k of Some existing \<Rightarrow> mergeInto existing c | None \<Rightarrow> newEntry c)
      else map_of es k)"
proof (cases "keyOf c")
  case None
  then show ?thesis by (simp add: collect_def)
next
  case (Some key)
  show ?thesis
  proof (cases "map_of es key")
    case None
    with Some show ?thesis
      by (cases "map_of es k") (auto simp: collect_def map_add_def)
  next
    case (Some existing)
    with \<open>keyOf c = Some key\<close> show ?thesis by (auto simp: collect_def update_conv')
  qed
qed

lemma mergeInto_fields:
  "e_sources (mergeInto e c) = addSource (e_sources e) (c_source c)"
  "e_displayName (mergeInto e c)
     = (if e_displayName e = [] \<and> c_displayName c \<noteq> [] then c_displayName c else e_displayName e)"
  "e_provider (mergeInto e c) = e_provider e"
  "e_id (mergeInto e c) = e_id e"
  by (simp_all add: mergeInto_def)

text \<open>The entry under a key after a run of calls: the calls with that key, merged in order.\<close>

lemma map_of_foldl_collect:
  "map_of (foldl collect es cs) k =
     (case map_of es k of
        Some e \<Rightarrow> Some (foldl mergeInto e (filter (\<lambda>c. keyOf c = Some k) cs))
      | None \<Rightarrow>
          (case filter (\<lambda>c. keyOf c = Some k) cs of
             [] \<Rightarrow> None
           | c # rest \<Rightarrow> Some (foldl mergeInto (newEntry c) rest)))"
proof (induction cs arbitrary: es)
  case Nil
  then show ?case by (simp split: option.splits)
next
  case (Cons c cs)
  have "map_of (foldl collect es (c # cs)) k = map_of (foldl collect (collect es c) cs) k" by simp
  also note Cons.IH [of "collect es c"]
  finally show ?case by (simp add: map_of_collect split: option.splits)
qed

lemma sources_foldl_mergeInto:
  "set (e_sources (foldl mergeInto e cs)) = set (e_sources e) \<union> c_source ` set cs"
proof (induction cs arbitrary: e)
  case Nil
  then show ?case by simp
next
  case (Cons c cs)
  have "set (e_sources (foldl mergeInto e (c # cs)))
      = set (e_sources (mergeInto e c)) \<union> c_source ` set cs"
    using Cons.IH [of "mergeInto e c"] by simp
  then show ?case by (auto simp: mergeInto_fields addSource_def)
qed

lemma displayName_foldl_mergeInto:
  "e_displayName (foldl mergeInto e cs) =
     (if e_displayName e \<noteq> [] then e_displayName e
      else (case filter (\<lambda>x. x \<noteq> []) (map c_displayName cs) of [] \<Rightarrow> [] | x # _ \<Rightarrow> x))"
proof (induction cs arbitrary: e)
  case Nil
  then show ?case by simp
next
  case (Cons c cs)
  have "e_displayName (foldl mergeInto e (c # cs)) =
     (if e_displayName (mergeInto e c) \<noteq> [] then e_displayName (mergeInto e c)
      else (case filter (\<lambda>x. x \<noteq> []) (map c_displayName cs) of [] \<Rightarrow> [] | x # _ \<Rightarrow> x))"
    using Cons.IH [of "mergeInto e c"] by simp
  then show ?case by (simp add: mergeInto_fields)
qed

lemma provider_foldl_mergeInto:
  "e_provider (foldl mergeInto e cs) = e_provider e \<and> e_id (foldl mergeInto e cs) = e_id e"
proof (induction cs arbitrary: e)
  case Nil
  then show ?case by simp
next
  case (Cons c cs)
  from Cons.IH [of "mergeInto e c"] show ?case by (simp add: mergeInto_fields)
qed

lemma newEntry_fields:
  "e_sources (newEntry c) = [c_source c]"
  "e_displayName (newEntry c) = trim (c_displayName c)"
  "e_provider (newEntry c) = c_provider c"
  "e_id (newEntry c) = normalizeModelID (c_modelID c)"
  by (simp_all add: newEntry_def)

lemma keyOf_Some: "keyOf c = Some k \<Longrightarrow> c_provider c @ ''::'' @ normalizeModelID (c_modelID c) = k"
  by (simp add: keyOf_def Let_def split: if_splits)

lemma merged_entry:
  assumes "filter (\<lambda>c. keyOf c = Some k) cs = c # rest"
  shows "\<exists>e. map_of (foldl collect [] cs) k = Some e
           \<and> set (e_sources e) = c_source ` set (c # rest)
           \<and> e_displayName e = firstDisplayName (map c_displayName (c # rest))
           \<and> e_provider e @ ''::'' @ e_id e = k"
proof -
  have "c \<in> set (filter (\<lambda>c. keyOf c = Some k) cs)" unfolding assms by simp
  then have k: "keyOf c = Some k" by simp
  have 1: "map_of (foldl collect [] cs) k = Some (foldl mergeInto (newEntry c) rest)"
    unfolding map_of_foldl_collect assms by simp
  have 2: "set (e_sources (foldl mergeInto (newEntry c) rest)) = c_source ` set (c # rest)"
    unfolding sources_foldl_mergeInto newEntry_fields by simp
  have 3: "e_displayName (foldl mergeInto (newEntry c) rest)
      = firstDisplayName (map c_displayName (c # rest))"
    unfolding displayName_foldl_mergeInto newEntry_fields by simp
  have 4: "e_provider (foldl mergeInto (newEntry c) rest) @ ''::'' @ e_id (foldl mergeInto (newEntry c) rest) = k"
    using keyOf_Some [OF k] provider_foldl_mergeInto [of "newEntry c" rest]
    by (simp only: newEntry_fields)
  from 1 2 3 4 show ?thesis by blast
qed

lemma mergedEntries_calls:
  "mergedEntries o_resp g_resp
     = foldl collect [] (map openaiCall (modelsOf o_resp) @ map geminiCall (modelsOf g_resp))"
  by (simp add: mergedEntries_def)

lemma promiseAll_two:
  "promiseAll 2 [(0, a), (Suc 0, b)] = Some [a, b]"
  "promiseAll 2 [(Suc 0, b), (0, a)] = Some [a, b]"
  by (simp_all add: promiseAll_def numeral_2_eq_2)

lemma getProviderModelsAsync_any_order:
  "getProviderModelsAsync rt [(0, a), (1, b)] = Some (getProviderModels rt a b)"
  "getProviderModelsAsync rt [(1, b), (0, a)] = Some (getProviderModels rt a b)"
  by (simp_all add: getProviderModelsAsync_def promiseAll_two)

lemma call_source:
  "c_source (openaiCall m) = ''openai''"
  "c_source (geminiCall m) = ''gemini''"
  by (simp_all add: openaiCall_def geminiCall_def Let_def)

lemma map_of_groupEntry:
  "map_of (groupEntry g e) p =
     (if e_provider e = p
      then Some ((case map_of g p of None \<Rightarrow> [] | Some xs \<Rightarrow> xs) @ [modelOut e])
      else map_of g p)"
  by (simp add: groupEntry_def Let_def update_conv')

lemma map_of_foldl_groupEntry:
  "map_of (foldl groupEntry g es) p =
     (if filter (\<lambda>e. e_provider e = p) es = [] then map_of g p
      else Some ((case map_of g p of None \<Rightarrow> [] | Some xs \<Rightarrow> xs)
                 @ map modelOut (filter (\<lambda>e. e_provider e = p) es)))"
proof (induction es arbitrary: g)
  case Nil
  then show ?case by simp
next
  case (Cons e es)
  have "map_of (foldl groupEntry g (e # es)) p = map_of (foldl groupEntry (groupEntry g e) es) p"
    by simp
  also note Cons.IH [of "groupEntry g e"]
  finally show ?case
    by (simp add: map_of_groupEntry split: option.splits)
qed

lemma keys_groupEntry: "fst ` set (groupEntry g e) = insert (e_provider e) (fst ` set g)"
  by (simp add: groupEntry_def Let_def dom_map_of_conv_image_fst [symmetric] update_conv')

lemma keys_foldl_groupEntry:
  "fst ` set (foldl groupEntry g es) = fst ` set g \<union> e_provider ` set es"
  by (induction es arbitrary: g) (auto simp: keys_groupEntry)

lemma distinct_foldl_groupEntry:
  "distinct (map fst g) \<Longrightarrow> distinct (map fst (foldl groupEntry g es))"
  by (induction es arbitrary: g) (simp_all add: groupEntry_def Let_def distinct_update)

lemma length_filter_insertBy:
  "length (filter P (insertBy cmp x ys)) = length (filter P (x # ys))"
  by (induction ys) auto

lemma length_filter_sortBy: "length (filter P (sortBy cmp xs)) = length (filter P xs)"
  by (induction xs) (simp_all add: length_filter_insertBy)

lemma filter_sortBy_singleton:
  assumes "filter P xs = [x]"
  shows "filter P (sortBy cmp xs) = [x]"
proof -
  have "length (filter P (sortBy cmp xs)) = 1" using assms by (simp add: length_filter_sortBy)
  moreover have "set (filter P (sortBy cmp xs)) = {x}"
    using assms by (metis set_filter set_sortBy list.set(1) list.simps(15))
  ultimately show ?thesis
    by (cases "filter P (sortBy cmp xs)") auto
qed

lemma list_all_update:
  "list_all P es \<Longrightarrow> P (k, v) \<Longrightarrow> list_all P (AList.update k v es)"
  by (induction es) (auto simp: AList.update.simps)

lemma keyed_collect:
  assumes "keyed es"
  shows "keyed (collect es c)"
proof (cases "keyOf c")
  case None
  with assms show ?thesis by (simp add: collect_def)
next
  case (Some key)
  note key = keyOf_Some [OF Some]
  show ?thesis
  proof (cases "map_of es key")
    case None
    with Some assms key show ?thesis by (simp add: collect_def keyed_def newEntry_fields)
  next
    case (Some existing)
    then have "(key, existing) \<in> set es" by (rule map_of_SomeD)
    with assms have "key = e_provider existing @ ''::'' @ e_id existing"
      by (auto simp: keyed_def list_all_iff)
    then have "key = e_provider (mergeInto existing c) @ ''::'' @ e_id (mergeInto existing c)"
      by (simp add: mergeInto_fields)
    with assms have "keyed (AList.update key (mergeInto existing c) es)"
      unfolding keyed_def by (intro list_all_update) simp_all
    with Some \<open>keyOf c = Some key\<close> show ?thesis by (simp add: collect_def)
  qed
qed

lemma keyed_foldl_collect: "keyed es \<Longrightarrow> keyed (foldl collect es cs)"
  by (induction cs arbitrary: es) (simp_all add: keyed_collect)

lemma entry_unique_by_key:
  assumes "distinct (map fst es)" and "keyed es" and "map_of es k = Some e"
  shows "filter (\<lambda>e'. e_provider e' @ ''::'' @ e_id e' = k) (map snd es) = [e]"
  using assms
proof (induction es)
  case Nil
  then show ?case by simp
next
  case (Cons x es)
  obtain k1 e1 where x: "x = (k1, e1)" by (cases x)
  from Cons.prems(2) x have k1: "k1 = e_provider e1 @ ''::'' @ e_id e1" and ke: "keyed es"
    by (simp_all add: keyed_def)
  from Cons.prems(1) x have d: "k1 \<notin> fst ` set es" "distinct (map fst es)" by simp_all
  show ?case
  proof (cases "k1 = k")
    case True
    with Cons.prems(3) x have e: "e1 = e" by simp
    have "filter (\<lambda>e'. e_provider e' @ ''::'' @ e_id e' = k) (map snd es) = []"
    proof (rule ccontr)
      assume "filter (\<lambda>e'. e_provider e' @ ''::'' @ e_id e' = k) (map snd es) \<noteq> []"
      then obtain e' where "e' \<in> set (map snd es)" "e_provider e' @ ''::'' @ e_id e' = k"
        unfolding filter_empty_conv by blast
      then obtain k' where "(k', e') \<in> set es" by auto
      with ke have "k' = e_provider e' @ ''::'' @ e_id e'" by (auto simp: keyed_def list_all_iff)
      with \<open>e_provider e' @ ''::'' @ e_id e' = k\<close> \<open>(k', e') \<in> set es\<close> True d(1)
      show False by force
    qed
    with True k1 e x show ?thesis by simp
  next
    case False
    with Cons.prems(3) x have "map_of es k = Some e" by simp
    from Cons.IH [OF d(2) ke this] False k1 x show ?thesis by simp
  qed
qed

lemma entry_unique:
  assumes "distinct (map fst es)" and "keyed es" and "map_of es k = Some e"
  shows "filter (\<lambda>e'. e_id e' = e_id e) (filter (\<lambda>e'. e_provider e' = e_provider e) (map snd es)) = [e]"
proof -
  have "(k, e) \<in> set es" using assms(3) by (rule map_of_SomeD)
  with assms(2) have k: "k = e_provider e @ ''::'' @ e_id e" by (auto simp: keyed_def list_all_iff)
  let ?P = "\<lambda>e'. e_provider e' @ ''::'' @ e_id e' = k"
  let ?Q = "\<lambda>e'. e_provider e' = e_provider e \<and> e_id e' = e_id e"
  have "filter ?Q (map snd es) = filter ?Q (filter ?P (map snd es))"
    unfolding filter_filter by (rule filter_cong) (auto simp: k)
  also have "\<dots> = filter ?Q [e]" using entry_unique_by_key [OF assms] by simp
  also have "\<dots> = [e]" by simp
  finally show ?thesis by (simp add: conj_commute)
qed

lemma distinct_addSource: "distinct srcs \<Longrightarrow> distinct (addSource srcs s)"
  by (simp add: addSource_def)

lemma distinct_sources_foldl_mergeInto:
  "distinct (e_sources e) \<Longrightarrow> distinct (e_sources (foldl mergeInto e cs))"
proof (induction cs arbitrary: e)
  case Nil
  then show ?case by simp
next
  case (Cons c cs)
  from Cons.prems have "distinct (e_sources (mergeInto e c))"
    by (simp add: mergeInto_fields distinct_addSource)
  from Cons.IH [OF this] show ?case by simp
qed

lemma distinct_sources_collect:
  assumes "list_all (\<lambda>(k, e). distinct (e_sources e)) es"
  shows "list_all (\<lambda>(k, e). distinct (e_sources e)) (collect es c)"
proof (cases "keyOf c")
  case None
  with assms show ?thesis by (simp add: collect_def)
next
  case (Some key)
  show ?thesis
  proof (cases "map_of es key")
    case None
    with Some assms show ?thesis by (simp add: collect_def newEntry_fields)
  next
    case (Some existing)
    then have "(key, existing) \<in> set es" by (rule map_of_SomeD)
    with assms have "distinct (e_sources existing)" by (auto simp: list_all_iff)
    then have "distinct (e_sources (mergeInto existing c))"
      by (simp add: mergeInto_fields distinct_addSource)
    with assms have "list_all (\<lambda>(k, e). distinct (e_sources e)) (AList.update key (mergeInto existing c) es)"
      by (intro list_all_update) simp_all
    with Some \<open>keyOf c = Some key\<close> show ?thesis by (simp add: collect_def)
  qed
qed

lemma distinct_sources_foldl_collect:
  "list_all (\<lambda>(k, e). distinct (e_sources e)) es
     \<Longrightarrow> list_all (\<lambda>(k, e). distinct (e_sources e)) (foldl collect es cs)"
  by (induction cs arbitrary: es) (simp_all add: distinct_sources_collect)

lemma two_elements:
  assumes "distinct xs" and "set xs = {a, b}" and "a \<noteq> b"
  shows "xs = [a, b] \<or> xs = [b, a]"
proof -
  have "length xs = 2" using assms by (metis card_2_iff distinct_card)
  then obtain x y where xs: "xs = [x, y]"
    by (metis (no_types, opaque_lifting) One_nat_def Suc_1 length_0_conv length_Suc_conv)
  with assms show ?thesis by (auto simp: doubleton_eq_iff)
qed

lemma sorted_tags:
  "sortBy codeUnitCompare [''openai'', ''gemini''] = [''gemini'', ''openai'']"
  "sortBy codeUnitCompare [''gemini'', ''openai''] = [''gemini'', ''openai'']"
  by simp_all

lemma modelOut_id [simp]: "o_id (modelOut e) = e_id e"
  by (simp add: modelOut_def)

lemma output_entry:
  assumes "map_of (mergedEntries openaiModelsResp geminiModelsResp) k = Some e"
  shows "\<exists>grp. filter (\<lambda>g. pm_provider g = e_provider e)
                 (providerModels (getProviderModels rt openaiModelsResp geminiModelsResp)) = [grp]
             \<and> filter (\<lambda>m. o_id m = e_id e) (pm_models grp) = [modelOut e]"
proof -
  define es where "es = mergedEntries openaiModelsResp geminiModelsResp"
  define byP where "byP = foldl groupEntry [] (map snd es)"
  define mk where "mk = (\<lambda>p. let models = sortBy (\<lambda>a b. localeCompare rt (o_id a) (o_id b))
                                      (case map_of byP p of None \<Rightarrow> [] | Some xs \<Rightarrow> xs)
                      in \<lparr>pm_provider = p, pm_count = length models, pm_models = models\<rparr>)"
  define ks where "ks = sortBy (sortProviders rt) (map fst byP)"
  define p where "p = e_provider e"
  have out: "providerModels (getProviderModels rt openaiModelsResp geminiModelsResp) = map mk ks"
    by (simp add: getProviderModels_def Let_def mk_def ks_def byP_def es_def)
  have d: "distinct (map fst es)"
    unfolding es_def mergedEntries_calls by (rule foldl_collect_distinct) simp
  have ky: "keyed es"
    unfolding es_def mergedEntries_calls by (rule keyed_foldl_collect) (simp add: keyed_def)
  from assms have m: "map_of es k = Some e" by (simp add: es_def)
  then have "(k, e) \<in> set es" by (rule map_of_SomeD)
  then have mem: "e \<in> set (map snd es)" by force
  have u: "filter (\<lambda>e'. e_id e' = e_id e) (filter (\<lambda>e'. e_provider e' = p) (map snd es)) = [e]"
    unfolding p_def using d ky m by (rule entry_unique)
  have ne: "filter (\<lambda>e'. e_provider e' = p) (map snd es) \<noteq> []"
  proof
    assume "filter (\<lambda>e'. e_provider e' = p) (map snd es) = []"
    with u show False by (simp del: filter_filter)
  qed
  have "fst ` set byP = e_provider ` set (map snd es)"
    unfolding byP_def by (simp add: keys_foldl_groupEntry)
  with mem have pin: "p \<in> set ks" unfolding ks_def p_def by (simp add: image_iff) blast
  have "distinct (map fst byP)" unfolding byP_def by (rule distinct_foldl_groupEntry) simp
  then have dk: "distinct ks" unfolding ks_def by simp
  have pm: "pm_provider (mk x) = x" for x by (simp add: mk_def Let_def)
  have "filter (\<lambda>g. pm_provider g = p) (map mk ks) = map mk (filter (\<lambda>x. x = p) ks)"
    by (simp add: filter_map comp_def pm)
  also have "\<dots> = [mk p]" using dk pin by (simp add: filter_eq_singleton)
  finally have g: "filter (\<lambda>g. pm_provider g = p) (map mk ks) = [mk p]" .
  have lookup: "(case map_of byP p of None \<Rightarrow> [] | Some xs \<Rightarrow> xs)
      = map modelOut (filter (\<lambda>e'. e_provider e' = p) (map snd es))"
    unfolding byP_def using ne by (simp add: map_of_foldl_groupEntry)
  have "filter (\<lambda>m. o_id m = e_id e) (map modelOut (filter (\<lambda>e'. e_provider e' = p) (map snd es)))
      = map modelOut (filter (\<lambda>e'. e_id e' = e_id e) (filter (\<lambda>e'. e_provider e' = p) (map snd es)))"
    by (simp only: filter_map comp_def modelOut_id)
  also have "\<dots> = [modelOut e]" by (simp only: u list.map)
  finally have "filter (\<lambda>m. o_id m = e_id e) (map modelOut (filter (\<lambda>e'. e_provider e' = p) (map snd es)))
      = [modelOut e]" .
  then have "filter (\<lambda>m. o_id m = e_id e) (pm_models (mk p)) = [modelOut e]"
    unfolding mk_def Let_def lookup by (simp add: filter_sortBy_singleton)
  with g show ?thesis unfolding out p_def by blast
qed

lemma distinct_sources_merged:
  assumes "map_of (foldl collect [] cs) k = Some e"
  shows "distinct (e_sources e)"
proof -
  have "list_all (\<lambda>(k, e). distinct (e_sources e)) (foldl collect [] cs)"
    by (rule distinct_sources_foldl_collect) simp
  moreover from assms have "(k, e) \<in> set (foldl collect [] cs)" by (rule map_of_SomeD)
  ultimately show ?thesis by (auto simp: list_all_iff)
qed

lemma sorted_sources:
  assumes "distinct (e_sources e)" and "set (e_sources e) = {''openai'', ''gemini''}"
  shows "o_sources (modelOut e) = [''gemini'', ''openai'']"
proof -
  have "e_sources e = [''openai'', ''gemini''] \<or> e_sources e = [''gemini'', ''openai'']"
    using assms by (rule two_elements) simp
  then show ?thesis by (auto simp: modelOut_def sorted_tags)
qed

lemma firstDisplayName_firstNonBlank:
  assumes "\<forall>d \<in> set (tl ds). trim d = d"
  shows "firstDisplayName ds = firstNonBlank ds"
proof (cases ds)
  case Nil
  then show ?thesis by (simp add: firstNonBlank_def)
next
  case (Cons d rest)
  with assms have "map trim rest = rest" by (simp add: map_idI)
  with Cons show ?thesis by (simp add: firstNonBlank_def)
qed


lemma modelsOf_okResponse [simp]: "modelsOf (okResponse ms) = ms"
  by (simp add: modelsOf_def okResponse_def)

lemmas eval_strings = normalizeProviderName_def inferProviderFromModel_def normalizeModelID_def
  trim_def toLowerCase_def lowerChar_def isSpace_def orElse_def Let_def

lemma example_calls:
  "openaiCall gpt4oOpenai = \<lparr>c_provider = ''codex'', c_modelID = ''gpt-4o'', c_displayName = [],
      c_source = ''openai'', c_ownedBy = ''openai''\<rparr>"
  "geminiCall gpt4oGemini = \<lparr>c_provider = ''codex'', c_modelID = ''models/gpt-4o'',
      c_displayName = ''GPT-4o'', c_source = ''gemini'', c_ownedBy = []\<rparr>"
  "openaiCall blankNameOpenai = \<lparr>c_provider = ''codex'', c_modelID = ''gpt-4o'', c_displayName = '' '',
      c_source = ''openai'', c_ownedBy = []\<rparr>"
  "geminiCall blankNameGemini = \<lparr>c_provider = ''codex'', c_modelID = ''models/gpt-4o'',
      c_displayName = ''  '', c_source = ''gemini'', c_ownedBy = []\<rparr>"
  "geminiCall namedGemini = \<lparr>c_provider = ''codex'', c_modelID = ''gpt-4o'',
      c_displayName = ''GPT-4o'', c_source = ''gemini'', c_ownedBy = []\<rparr>"
  by (simp_all add: openaiCall_def geminiCall_def gpt4oOpenai_def gpt4oGemini_def
      blankNameOpenai_def blankNameGemini_def namedGemini_def eval_strings)

lemma example_keys:
  "keyOf (openaiCall gpt4oOpenai) = Some ''codex::gpt-4o''"
  "keyOf (geminiCall gpt4oGemini) = Some ''codex::gpt-4o''"
  "keyOf (openaiCall blankNameOpenai) = Some ''codex::gpt-4o''"
  "keyOf (geminiCall blankNameGemini) = Some ''codex::gpt-4o''"
  "keyOf (geminiCall namedGemini) = Some ''codex::gpt-4o''"
  by (simp_all add: example_calls keyOf_def normalizeModelID_def trim_def isSpace_def Let_def)

lemma example_names:
  "c_displayName (openaiCall gpt4oOpenai) = []"
  "c_displayName (geminiCall gpt4oGemini) = ''GPT-4o''"
  "c_displayName (openaiCall blankNameOpenai) = '' ''"
  "c_displayName (geminiCall namedGemini) = ''GPT-4o''"
  by (simp_all add: openaiCall_def geminiCall_def gpt4oOpenai_def gpt4oGemini_def
      blankNameOpenai_def namedGemini_def orElse_def Let_def)



text \<open>
  A later call stores its display name as it is. When the first name is blank, a later name
  of two blanks is kept, and the name \<^verbatim>\<open>GPT-4o\<close> after it is not taken.
\<close>

lemma untrimmed_update_example:
  "map c_displayName [openaiCall blankNameOpenai, geminiCall blankNameGemini, geminiCall namedGemini]
      = ['' '', ''  '', ''GPT-4o'']
 \<and> map (\<lambda>(k, e). (k, e_displayName e))
       (mergedEntries (okResponse [blankNameOpenai]) (okResponse [blankNameGemini, namedGemini]))
      = [(''codex::gpt-4o'', ''  '')]"
  by (simp add: mergedEntries_def example_calls collect_def keyOf_def mergeInto_def newEntry_def
      addSource_def normalizeModelID_def trim_def isSpace_def Let_def)

end
